theory Spec2Isabelle
  imports Complex_Main
begin

section \<open>The exposure engine of the light meter\<close>

text \<open>
  A shallow embedding of the exposure calculation of the light meter: the composable
  \<^verbatim>\<open>useLightMeter\<close> (tables, snapping, \<^verbatim>\<open>calculateEV\<close>,
  \<^verbatim>\<open>updateExposureParams\<close>) and the metering view (\<^verbatim>\<open>getStandardAperture\<close>,
  \<^verbatim>\<open>analyzeBrightness\<close> with its centre-weighted sampler, the ISO and compensation
  watcher).

  In the snaps, the solvers and the view, JavaScript numbers are modelled as
  \<^typ>\<open>real\<close>: \<^verbatim>\<open>Math.log2 x\<close> is \<^term>\<open>log 2 x\<close>, \<^verbatim>\<open>Math.pow(2, x)\<close> is
  \<^term>\<open>2 powr x\<close>, \<^verbatim>\<open>Math.pow(a, 2)\<close> is \<^term>\<open>a\<^sup>2\<close>, \<^verbatim>\<open>Math.sqrt\<close> is \<^term>\<open>sqrt\<close>;
  rounding and overflow are not modelled there. In \<^verbatim>\<open>calculateEV\<close> of the composable
  every operation is rounded to binary64, because the statements about it compare two of
  its results exactly. A \<^verbatim>\<open>NaN\<close> that comes from dividing zero by zero or from reading
  past the end of the pixel array is modelled (\<^term>\<open>None\<close> in \<open>calculateEV\<close>, the type
  \<open>number\<close> in the view). The solvers are described for an ISO above zero, which the specification
  requires of every caller: with an ISO of zero the source divides by zero, with a
  negative one it takes the square root of a negative number. The snaps take the
  logarithm of positive values only: the solvers call them inside their range check.
\<close>

subsection \<open>State of the composable\<close>

datatype metering = Aperture | Shutter

record LightMeterState =
  currentEV :: real
  aperture :: real
  shutterSpeed :: real
  iso :: real
  exposureCompensation :: real
  typeFlag :: metering

text \<open>
  The field \<^verbatim>\<open>iso\<close> of the source holds a numeric string and is read through
  \<^verbatim>\<open>Number(iso.value)\<close>; the record holds that number.
\<close>

definition deviceBrightnessCompensation :: real where
  "deviceBrightnessCompensation = 1.0"

definition baseCalibrationFactor :: real where
  "baseCalibrationFactor = 1.2"

definition standardApertureValues :: "real list" where
  "standardApertureValues = [1.0, 1.4, 2.0, 2.8, 4.0, 5.6, 8.0, 11.0, 16.0, 22.0]"

definition standardShutterSpeeds :: "real list" where
  "standardShutterSpeeds =
     [1/8000, 1/4000, 1/2000, 1/1000, 1/500, 1/250, 1/125,
      1/60, 1/30, 1/15, 1/8, 1/4, 1/2, 1, 2, 4, 8, 15, 30]"

subsection \<open>Array.prototype.reduce without an initial value\<close>

text \<open>
  The first element is the first accumulator, the callback receives the accumulator and
  the current element, and an empty array raises a TypeError (\<^term>\<open>None\<close>).
\<close>

fun reduce :: "('a \<Rightarrow> 'a \<Rightarrow> 'a) \<Rightarrow> 'a list \<Rightarrow> 'a option" where
  "reduce f [] = None"
| "reduce f (x # xs) = Some (foldl f x xs)"

subsection \<open>Snapping\<close>

definition getStandardShutterSpeed :: "real \<Rightarrow> real option" where
  "getStandardShutterSpeed v =
     reduce (\<lambda>prev curr.
        if \<bar>log 2 curr - log 2 v\<bar> < \<bar>log 2 prev - log 2 v\<bar> then curr else prev)
       standardShutterSpeeds"

definition getStandardApertureValue :: "real \<Rightarrow> real option" where
  "getStandardApertureValue v =
     reduce (\<lambda>prev curr. if \<bar>curr - v\<bar> < \<bar>prev - v\<bar> then curr else prev)
       standardApertureValues"

subsection \<open>Binary64 arithmetic\<close>

text \<open>
  The exposure value is computed with the operators \<^verbatim>\<open>*\<close>, \<^verbatim>\<open>+=\<close> and \<^verbatim>\<open>/\<close> on
  JavaScript numbers: each one returns the exact result rounded to the nearest binary64
  number, ties to the even significand. \<open>roundTiesToEven\<close> rounds a real to the nearest
  integer, ties to even; \<open>ulp x\<close> is the spacing of the binary64 numbers at the magnitude
  of \<open>x\<close> (53 significant bits); \<open>round64\<close> rounds a real to the nearest binary64
  number. The exponent is not bounded: overflow and subnormal numbers are not modelled
  (the clamp keeps the argument of the logarithm between 1/16 and 200). A numeric
  literal of the source is the binary64 number nearest its decimal value.
\<close>

definition roundTiesToEven :: "real \<Rightarrow> int" where
  "roundTiesToEven z =
     (let f = \<lfloor>z\<rfloor> in
      if z - of_int f < 1/2 then f
      else if 1/2 < z - of_int f then f + 1
      else if even f then f else f + 1)"

definition ulp :: "real \<Rightarrow> real" where
  "ulp x = 2 powr (of_int \<lfloor>log 2 \<bar>x\<bar>\<rfloor> - 52)"

definition round64 :: "real \<Rightarrow> real" where
  "round64 x =
     (if x = 0 then 0
      else sgn x * (of_int (roundTiesToEven (\<bar>x\<bar> / ulp x)) * ulp x))"

definition isBinary64 :: "real \<Rightarrow> bool" where
  "isBinary64 x = (round64 x = x)"

subsection \<open>Exposure value from a luminance\<close>

text \<open>
  \<^verbatim>\<open>Math.log2\<close> is approximated in a way the language leaves to the implementation, so
  it is a parameter \<open>mathLog2\<close> of the model. \<^verbatim>\<open>Math.max\<close> and \<^verbatim>\<open>Math.min\<close> are
  exact. The luminance is a binary64 number in the source; the model accepts any real,
  so a luminance that is \<^verbatim>\<open>NaN\<close> or infinite is not modelled.
\<close>

definition singleMeasurement :: "(real \<Rightarrow> real) \<Rightarrow> real \<Rightarrow> real" where
  "singleMeasurement mathLog2 luminance =
     (let calibrationFactor =
            round64 (round64 baseCalibrationFactor * round64 deviceBrightnessCompensation);
          minLuminance = round64 0.001;
          maxLuminance = round64 0.95;
          clampedLuminance = max minLuminance (min maxLuminance luminance)
      in mathLog2 (round64 (round64 (clampedLuminance * 100) * calibrationFactor)))"

text \<open>
  The sampling loop \<^verbatim>\<open>for (let i = 0; i < samples; i++) totalEV += singleMeasurement()\<close>:
  the first argument after \<open>mathLog2\<close> counts the iterations still to run.
\<close>

fun sampleLoop :: "(real \<Rightarrow> real) \<Rightarrow> nat \<Rightarrow> real \<Rightarrow> real \<Rightarrow> real" where
  "sampleLoop mathLog2 0 luminance totalEV = totalEV"
| "sampleLoop mathLog2 (Suc n) luminance totalEV =
     sampleLoop mathLog2 n luminance (round64 (totalEV + singleMeasurement mathLog2 luminance))"

text \<open>
  The sample count is a natural number (below 2^53 it is a binary64 number). With no
  sample the source divides zero by zero; that \<^verbatim>\<open>NaN\<close> is \<^term>\<open>None\<close>. The default of
  the parameter is five.
\<close>

definition calculateEV :: "(real \<Rightarrow> real) \<Rightarrow> real \<Rightarrow> nat \<Rightarrow> real option" where
  "calculateEV mathLog2 luminance samples =
     (if samples = 0 then None
      else Some (round64 (sampleLoop mathLog2 samples luminance 0 / real samples)))"

definition calculateEV_default :: "(real \<Rightarrow> real) \<Rightarrow> real \<Rightarrow> real option" where
  "calculateEV_default mathLog2 luminance = calculateEV mathLog2 luminance 5"

text \<open>
  The two intermediate values of \<^verbatim>\<open>singleMeasurement\<close>, named for the statements: the
  clamped luminance and the argument of \<^verbatim>\<open>Math.log2\<close>.
\<close>

definition clampLuminance :: "real \<Rightarrow> real" where
  "clampLuminance luminance = max (round64 0.001) (min (round64 0.95) luminance)"

definition log2Argument :: "real \<Rightarrow> real" where
  "log2Argument luminance = round64 (round64 (clampLuminance luminance * 100) * round64 1.2)"

text \<open>
  What the statements ask of a \<^verbatim>\<open>Math.log2\<close>: that it returns binary64 numbers, that it
  is exact on the powers of two it meets here (the argument of the logarithm lies between
  1/16 and 200). A \<^verbatim>\<open>Math.log2\<close> that returns the binary64 number nearest the logarithm
  has both properties and never decreases; at 12 it returns 3.584962500721156.
\<close>

definition returnsBinary64 :: "(real \<Rightarrow> real) \<Rightarrow> bool" where
  "returnsBinary64 f = (\<forall>x. isBinary64 (f x))"


definition correctlyRoundedLog2 :: "real \<Rightarrow> real" where
  "correctlyRoundedLog2 x = round64 (log 2 x)"

subsection \<open>The solver of the composable\<close>

text \<open>
  \<^verbatim>\<open>updateExposureParams\<close> stores the exposure value and solves the driven
  parameter. \<^term>\<open>None\<close> stands for the TypeError of \<^term>\<open>reduce\<close> on an empty table.
\<close>

definition updateExposureParams :: "real \<Rightarrow> LightMeterState \<Rightarrow> LightMeterState option" where
  "updateExposureParams ev s0 =
     (let s = s0\<lparr>currentEV := ev\<rparr> in
      if typeFlag s = Aperture then
        (let shutterValue =
               2 powr (- (ev - exposureCompensation s)) * (100 / iso s) * (aperture s)\<^sup>2
         in if shutterValue < 1/8000 \<or> shutterValue > 30
            then Some (s\<lparr>shutterSpeed := 0\<rparr>)
            else map_option (\<lambda>r. s\<lparr>shutterSpeed := r\<rparr>) (getStandardShutterSpeed shutterValue))
      else if typeFlag s = Shutter \<and> shutterSpeed s > 0 then
        (let calculatedAperture =
               sqrt (shutterSpeed s * (100 / iso s) * 2 powr (ev - exposureCompensation s))
         in if calculatedAperture < 1.0 \<or> calculatedAperture > 22
            then Some (s\<lparr>aperture := 0\<rparr>)
            else map_option (\<lambda>r. s\<lparr>aperture := r\<rparr>) (getStandardApertureValue calculatedAperture))
      else Some s)"

definition toggleMeteringMode :: "LightMeterState \<Rightarrow> LightMeterState" where
  "toggleMeteringMode s =
     s\<lparr>typeFlag := (if typeFlag s = Aperture then Shutter else Aperture)\<rparr>"

subsection \<open>The raw values of the specification\<close>

text \<open>
  The two formulas as the specification writes them, to compare the solver with:
  \<^verbatim>\<open>shutterRaw = 2^(-(EV - compensation)) * (100/ISO) * aperture^2\<close> and
  \<^verbatim>\<open>apertureRaw = sqrt(shutterSpeed * (100/ISO) * 2^(EV - compensation))\<close>.
\<close>

definition spec_shutterRaw :: "real \<Rightarrow> real \<Rightarrow> real \<Rightarrow> real \<Rightarrow> real" where
  "spec_shutterRaw ev compensation isoValue apertureValue =
     2 powr (- (ev - compensation)) * (100 / isoValue) * apertureValue\<^sup>2"

definition spec_apertureRaw :: "real \<Rightarrow> real \<Rightarrow> real \<Rightarrow> real \<Rightarrow> real" where
  "spec_apertureRaw ev compensation isoValue shutterValue =
     sqrt (shutterValue * (100 / isoValue) * 2 powr (ev - compensation))"

subsection \<open>The metering view: state and tables\<close>

text \<open>
  The view keeps its own refs. The fields that the measurement reads or writes are kept
  (the suffix \<open>V\<close> tells them from the fields of the composable); the camera stream,
  the loading flag and the error message are not touched by the measurement. The view
  declares the same shutter table and the same \<^term>\<open>getStandardShutterSpeed\<close> as the
  composable, and a longer aperture table that it snaps by the distance of logarithms.
\<close>

record ViewState =
  isStreaming :: bool
  isoV :: real
  exposureCompensationV :: real
  apertureV :: real
  shutterSpeedV :: real
  isMeasuring :: bool
  typeFlagV :: metering
  showApertureSelector :: bool
  showShutterSelector :: bool
  showIsoSelector :: bool
  showEvSelector :: bool

definition apertureValues :: "real list" where
  "apertureValues = [1.0, 1.2, 1.4, 1.8, 2, 2.8, 4, 5.6, 8, 11, 16, 22]"

definition getStandardAperture :: "real \<Rightarrow> real option" where
  "getStandardAperture apertureValue =
     reduce (\<lambda>prev curr.
        if \<bar>log 2 curr - log 2 apertureValue\<bar> < \<bar>log 2 prev - log 2 apertureValue\<bar>
        then curr else prev)
       apertureValues"

subsection \<open>The metering view: luminance of a frame\<close>

text \<open>
  A number of the measurement is a real or \<^verbatim>\<open>NaN\<close>: reading the pixel array out of
  range gives \<^verbatim>\<open>undefined\<close>, which arithmetic turns into \<^verbatim>\<open>NaN\<close>, and a frame
  with no pixel divides zero by zero.
\<close>

datatype number = NaN | Num real

text \<open>
  The pixels that \<^verbatim>\<open>getImageData\<close> returns: four channel samples for each pixel,
  row by row.
\<close>

record ImageData =
  width :: nat
  height :: nat
  data :: "nat list"

definition channel :: "nat list \<Rightarrow> nat \<Rightarrow> number" where
  "channel d i = (if i < length d then Num (real (d ! i) / 255) else NaN)"

definition centerWeight :: real where
  "centerWeight = 0.6"

text \<open>The gamma correction, which the source writes out for each of the three channels.\<close>

definition linearRGB :: "real \<Rightarrow> real" where
  "linearRGB c = (if c \<le> 0.03928 then c / 12.92 else ((c + 0.055) / 1.055) powr 2.4)"

definition isCenter :: "ImageData \<Rightarrow> nat \<Rightarrow> nat \<Rightarrow> bool" where
  "isCenter img x y =
     (let centerX = nat \<lfloor>real (width img) * 0.3\<rfloor>;
          centerY = nat \<lfloor>real (height img) * 0.3\<rfloor>;
          centerWidth = nat \<lfloor>real (width img) * 0.4\<rfloor>;
          centerHeight = nat \<lfloor>real (height img) * 0.4\<rfloor>
      in x \<ge> centerX \<and> x \<le> centerX + centerWidth
         \<and> y \<ge> centerY \<and> y \<le> centerY + centerHeight)"

definition pixelLuminance :: "ImageData \<Rightarrow> nat \<Rightarrow> nat \<Rightarrow> number" where
  "pixelLuminance img x y =
     (let i = (y * width img + x) * 4;
          weight = (if isCenter img x y then centerWeight else 1 - centerWeight)
      in case (channel (data img) i, channel (data img) (i + 1), channel (data img) (i + 2)) of
           (Num r, Num g, Num b) \<Rightarrow>
             Num ((0.2126 * linearRGB r + 0.7152 * linearRGB g + 0.0722 * linearRGB b) * weight)
         | _ \<Rightarrow> NaN)"

text \<open>
  One step of the inner loop adds the luminance of a pixel to \<^verbatim>\<open>totalLuminance\<close> and
  counts the pixel; the two loops run over the rows and, in a row, over the columns.
\<close>

definition pixelStep :: "ImageData \<Rightarrow> nat \<Rightarrow> number \<times> nat \<Rightarrow> nat \<Rightarrow> number \<times> nat" where
  "pixelStep img y acc x =
     (case acc of (totalLuminance, pixelCount) \<Rightarrow>
        ((case (totalLuminance, pixelLuminance img x y) of
            (Num t, Num l) \<Rightarrow> Num (t + l)
          | _ \<Rightarrow> NaN),
         pixelCount + 1))"

definition rowLoop :: "ImageData \<Rightarrow> number \<times> nat \<Rightarrow> nat \<Rightarrow> number \<times> nat" where
  "rowLoop img acc y = foldl (pixelStep img y) acc [0..<width img]"

definition averageLuminance :: "ImageData \<Rightarrow> number" where
  "averageLuminance img =
     (case foldl (rowLoop img) (Num 0, 0) [0..<height img] of
        (totalLuminance, pixelCount) \<Rightarrow>
          (case totalLuminance of
             NaN \<Rightarrow> NaN
           | Num t \<Rightarrow> if pixelCount = 0 then NaN else Num (t / real pixelCount)))"

text \<open>One sample of the view: the exposure value of the frame drawn for it.\<close>

definition singleMeasurementV :: "ImageData \<Rightarrow> number" where
  "singleMeasurementV img =
     (let baseCalibrationFactorV = 12.5;
          deviceBrightnessCompensationV = 1.2;
          calibrationFactor = baseCalibrationFactorV * deviceBrightnessCompensationV;
          minLuminance = 0.001;
          maxLuminance = 0.95
      in case averageLuminance img of
           NaN \<Rightarrow> NaN
         | Num l \<Rightarrow>
             Num (log 2 (max minLuminance (min maxLuminance l) * 100 * calibrationFactor)))"

subsection \<open>The metering view: measuring and solving\<close>

text \<open>
  The second half of \<^verbatim>\<open>analyzeBrightness\<close>: the driven parameter from the measured
  exposure value. Every comparison with \<^verbatim>\<open>NaN\<close> is false, so a \<^verbatim>\<open>NaN\<close> passes the
  range check and the reduction keeps its first accumulator.
\<close>

definition solveExposure :: "number \<Rightarrow> ViewState \<Rightarrow> ViewState option" where
  "solveExposure calculatedEV s =
     (if typeFlagV s = Aperture then
        (case calculatedEV of
           NaN \<Rightarrow>
             map_option (\<lambda>r. s\<lparr>shutterSpeedV := r\<rparr>)
               (reduce (\<lambda>prev curr. prev) standardShutterSpeeds)
         | Num ev \<Rightarrow>
             (let shutterValue =
                    2 powr (- (ev - exposureCompensationV s)) * (100 / isoV s)
                      * (apertureV s)\<^sup>2
              in if shutterValue < 1/8000 \<or> shutterValue > 30
                 then Some (s\<lparr>shutterSpeedV := 0\<rparr>)
                 else map_option (\<lambda>r. s\<lparr>shutterSpeedV := r\<rparr>)
                        (getStandardShutterSpeed shutterValue)))
      else if typeFlagV s = Shutter \<and> shutterSpeedV s > 0 then
        (case calculatedEV of
           NaN \<Rightarrow>
             map_option (\<lambda>r. s\<lparr>apertureV := r\<rparr>) (reduce (\<lambda>prev curr. prev) apertureValues)
         | Num ev \<Rightarrow>
             (let calculatedAperture =
                    sqrt (shutterSpeedV s * (100 / isoV s)
                      * 2 powr (ev - exposureCompensationV s))
              in if calculatedAperture < 1.0 \<or> calculatedAperture > 22
                 then Some (s\<lparr>apertureV := 0\<rparr>)
                 else map_option (\<lambda>r. s\<lparr>apertureV := r\<rparr>)
                        (getStandardAperture calculatedAperture)))
      else Some s)"

text \<open>
  The sampling loop of the view draws the video anew for each of its ten samples:
  \<open>frames i\<close> is the frame that the \<open>i\<close>-th sample reads.
\<close>

definition sampleStep :: "(nat \<Rightarrow> ImageData) \<Rightarrow> number \<Rightarrow> nat \<Rightarrow> number" where
  "sampleStep frames totalEV i =
     (case (totalEV, singleMeasurementV (frames i)) of
        (Num t, Num e) \<Rightarrow> Num (t + e)
      | _ \<Rightarrow> NaN)"

definition measureEV :: "(nat \<Rightarrow> ImageData) \<Rightarrow> number" where
  "measureEV frames =
     (let samples = 10 in
      case foldl (sampleStep frames) (Num 0) [0..<samples] of
        NaN \<Rightarrow> NaN
      | Num totalEV \<Rightarrow> Num (totalEV / real samples))"

text \<open>
  \<^verbatim>\<open>analyzeBrightness\<close>. The first argument is the video element (\<^term>\<open>None\<close> when
  the ref is empty) as the frames that \<^verbatim>\<open>getImageData\<close> returns from it, the second
  tells whether the canvas gave a drawing context. \<^term>\<open>None\<close> as a result is the
  TypeError of \<^term>\<open>reduce\<close>. A video without pixels makes \<^verbatim>\<open>getImageData\<close> itself
  raise; the frames of the model are those it returns.
\<close>

definition analyzeBrightness ::
    "(nat \<Rightarrow> ImageData) option \<Rightarrow> bool \<Rightarrow> ViewState \<Rightarrow> ViewState option" where
  "analyzeBrightness video context s =
     (case video of
        None \<Rightarrow> Some s
      | Some frames \<Rightarrow>
          if \<not> isStreaming s then Some s
          else
            (let s1 = s\<lparr>showEvSelector := False, showIsoSelector := False,
                         showShutterSelector := False, showApertureSelector := False,
                         isMeasuring := True\<rparr>
             in if \<not> context then Some s1
                else map_option (\<lambda>s2. s2\<lparr>isMeasuring := False\<rparr>)
                       (solveExposure (measureEV frames) s1)))"

text \<open>
  The watcher of the ISO and of the exposure compensation, run on the state that holds
  the new value.
\<close>

definition watchIsoExposureCompensation ::
    "(nat \<Rightarrow> ImageData) option \<Rightarrow> bool \<Rightarrow> ViewState \<Rightarrow> ViewState option" where
  "watchIsoExposureCompensation video context s =
     (if shutterSpeedV s > 0 then analyzeBrightness video context s else Some s)"

text \<open>
  Choosing an ISO in the selector: the handler stores it and closes the selector, and the
  watcher runs when the value has changed.
\<close>

definition handleIsoSelect ::
    "real \<Rightarrow> (nat \<Rightarrow> ImageData) option \<Rightarrow> bool \<Rightarrow> ViewState \<Rightarrow> ViewState option" where
  "handleIsoSelect v video context s =
     (let s1 = s\<lparr>isoV := v, showIsoSelector := False\<rparr>
      in if v \<noteq> isoV s then watchIsoExposureCompensation video context s1 else Some s1)"

subsection \<open>Frames for the statements about the sampler\<close>

text \<open>
  What \<^verbatim>\<open>getImageData\<close> returns for a frame that has pixels: four samples for each
  pixel, each from 0 to 255. A frame is uniform when red, green and blue of every pixel
  have the same given value (0 for a black frame, 255 for a white one).
\<close>

definition wellFormed :: "ImageData \<Rightarrow> bool" where
  "wellFormed img \<longleftrightarrow>
     0 < width img \<and> 0 < height img
     \<and> length (data img) = 4 * width img * height img
     \<and> (\<forall>v\<in>set (data img). v \<le> 255)"

definition uniformRGB :: "ImageData \<Rightarrow> nat \<Rightarrow> bool" where
  "uniformRGB img c \<longleftrightarrow>
     (\<forall>p < width img * height img.
        data img ! (p * 4) = c \<and> data img ! (p * 4 + 1) = c \<and> data img ! (p * 4 + 2) = c)"

subsection \<open>Example frames and an example state of the view\<close>

definition whitePixel :: ImageData where
  "whitePixel = \<lparr>width = 1, height = 1, data = [255, 255, 255, 255]\<rparr>"

definition blackPixel :: ImageData where
  "blackPixel = \<lparr>width = 1, height = 1, data = [0, 0, 0, 255]\<rparr>"

definition meteredView :: ViewState where
  "meteredView =
     \<lparr>isStreaming = True, isoV = 100, exposureCompensationV = 0, apertureV = 1.4,
      shutterSpeedV = 1/60, isMeasuring = False, typeFlagV = Aperture,
      showApertureSelector = False, showShutterSelector = False, showIsoSelector = False,
      showEvSelector = False\<rparr>"

definition shutterHeld :: LightMeterState where
  "shutterHeld = \<lparr>currentEV = 0, aperture = 2.8, shutterSpeed = 1/4, iso = 100,
      exposureCompensation = 0, typeFlag = Shutter\<rparr>"

definition shutterHeldView :: ViewState where
  "shutterHeldView = meteredView\<lparr>shutterSpeedV := 1/4, typeFlagV := Shutter\<rparr>"

definition apertureHeld :: LightMeterState where
  "apertureHeld = \<lparr>currentEV = 0, aperture = 22, shutterSpeed = 0, iso = 100,
      exposureCompensation = 0, typeFlag = Aperture\<rparr>"


subsection \<open>The weighted mean of the specification\<close>

text \<open>
  The sampler as the specification describes it, to compare the loops with: normalise the
  channels of a pixel, correct the gamma, combine with the Rec. 709 coefficients, multiply
  by the weight of the region, and average over all pixels of the frame.
\<close>

definition spec_weight :: "ImageData \<Rightarrow> nat \<Rightarrow> nat \<Rightarrow> real" where
  "spec_weight img x y = (if isCenter img x y then centerWeight else 1 - centerWeight)"

definition spec_luminance :: "ImageData \<Rightarrow> nat \<Rightarrow> nat \<Rightarrow> real" where
  "spec_luminance img x y =
     (let i = (y * width img + x) * 4;
          r = real (data img ! i) / 255;
          g = real (data img ! (i + 1)) / 255;
          b = real (data img ! (i + 2)) / 255
      in (0.2126 * linearRGB r + 0.7152 * linearRGB g + 0.0722 * linearRGB b)
           * spec_weight img x y)"

definition spec_meanLuminance :: "ImageData \<Rightarrow> real" where
  "spec_meanLuminance img =
     (\<Sum>y<height img. \<Sum>x<width img. spec_luminance img x y)
       / real (width img * height img)"

definition whiteRow :: ImageData where
  "whiteRow = \<lparr>width = 3, height = 1,
       data = [255, 255, 255, 255, 255, 255, 255, 255, 255, 255, 255, 255]\<rparr>"

definition blackRow :: ImageData where
  "blackRow = \<lparr>width = 2, height = 1, data = [0, 0, 0, 255, 0, 0, 0, 255]\<rparr>"

section \<open>Properties\<close>

subsection \<open>The closest entry of a table\<close>

lemma foldl_closest_mem:
  "foldl (\<lambda>prev curr. if d curr < d prev then curr else prev) x xs \<in> set (x # xs)"
proof (induction xs arbitrary: x)
  case Nil
  show ?case by simp
next
  case (Cons y ys)
  have "foldl (\<lambda>prev curr. if d curr < d prev then curr else prev)
          (if d y < d x then y else x) ys \<in> set ((if d y < d x then y else x) # ys)"
    by (rule Cons.IH)
  then show ?case by (auto split: if_splits)
qed

lemma foldl_closest_le:
  fixes d :: "'a \<Rightarrow> real"
  shows "d (foldl (\<lambda>prev curr. if d curr < d prev then curr else prev) x xs) \<le> d x"
proof (induction xs arbitrary: x)
  case Nil
  show ?case by simp
next
  case (Cons y ys)
  have "d (foldl (\<lambda>prev curr. if d curr < d prev then curr else prev)
          (if d y < d x then y else x) ys) \<le> d (if d y < d x then y else x)"
    by (rule Cons.IH)
  then show ?case by (auto split: if_splits)
qed

lemma foldl_closest_min:
  fixes d :: "'a \<Rightarrow> real"
  assumes "y \<in> set (x # xs)"
  shows "d (foldl (\<lambda>prev curr. if d curr < d prev then curr else prev) x xs) \<le> d y"
  using assms
proof (induction xs arbitrary: x)
  case Nil
  then show ?case by simp
next
  case (Cons z zs)
  let ?x' = "if d z < d x then z else x"
  have le: "d (foldl (\<lambda>prev curr. if d curr < d prev then curr else prev) ?x' zs) \<le> d ?x'"
    by (rule foldl_closest_le)
  show ?case
  proof (cases "y \<in> set (?x' # zs)")
    case True
    then show ?thesis using Cons.IH [of ?x'] by simp
  next
    case False
    then have "d ?x' \<le> d y" using Cons.prems by (auto split: if_splits)
    then show ?thesis using le by simp
  qed
qed

subsection \<open>Distances between logarithms\<close>

lemma logdist_eq:
  fixes a v :: real
  assumes "0 < a" "0 < v"
  shows "\<bar>log 2 a - log 2 v\<bar> = log 2 (max (a / v) (v / a))"
proof (cases "v \<le> a")
  case True
  then have le: "log 2 v \<le> log 2 a" using assms by simp
  have "v / a \<le> 1" "1 \<le> a / v" using True assms by simp_all
  then have "max (a / v) (v / a) = a / v" by (simp only: max_def) simp
  then have "log 2 (max (a / v) (v / a)) = log 2 a - log 2 v"
    using log_divide_pos [OF assms(1) assms(2), of 2] by (simp only:)
  then show ?thesis using le by linarith
next
  case False
  then have le: "log 2 a \<le> log 2 v" using assms by simp
  have "a / v \<le> 1" "1 \<le> v / a" using False assms by simp_all
  then have "max (a / v) (v / a) = v / a" by (simp only: max_def) simp
  then have "log 2 (max (a / v) (v / a)) = log 2 v - log 2 a"
    using log_divide_pos [OF assms(2) assms(1), of 2] by (simp only:)
  then show ?thesis using le by linarith
qed

lemma logdist_less_iff:
  fixes c p v :: real
  assumes "0 < c" "0 < p" "0 < v"
  shows "(\<bar>log 2 c - log 2 v\<bar> < \<bar>log 2 p - log 2 v\<bar>) = (max (c / v) (v / c) < max (p / v) (v / p))"
proof -
  have pc: "0 < max (c / v) (v / c)" and pp: "0 < max (p / v) (v / p)"
    using assms by (simp_all add: max_def)
  have "(\<bar>log 2 c - log 2 v\<bar> < \<bar>log 2 p - log 2 v\<bar>)
      = (log 2 (max (c / v) (v / c)) < log 2 (max (p / v) (v / p)))"
    by (simp only: logdist_eq [OF assms(1) assms(3)] logdist_eq [OF assms(2) assms(3)])
  also have "\<dots> = (max (c / v) (v / c) < max (p / v) (v / p))"
    by (rule log_less_cancel_iff [OF _ pc pp]) simp
  finally show ?thesis .
qed

lemma foldl_logdist_ratio:
  fixes v x :: real
  assumes "0 < v" "0 < x" "\<forall>y\<in>set xs. 0 < y"
  shows "foldl (\<lambda>prev curr.
           if \<bar>log 2 curr - log 2 v\<bar> < \<bar>log 2 prev - log 2 v\<bar> then curr else prev) x xs
       = foldl (\<lambda>prev curr.
           if max (curr / v) (v / curr) < max (prev / v) (v / prev) then curr else prev) x xs"
  using assms(2,3)
proof (induction xs arbitrary: x)
  case Nil
  show ?case by simp
next
  case (Cons y ys)
  have y: "0 < y" and ys: "\<forall>z\<in>set ys. 0 < z" using Cons.prems(2) by simp_all
  have step: "(\<bar>log 2 y - log 2 v\<bar> < \<bar>log 2 x - log 2 v\<bar>)
               = (max (y / v) (v / y) < max (x / v) (v / x))"
    by (rule logdist_less_iff [OF y Cons.prems(1) assms(1)])
  have pos: "0 < (if max (y / v) (v / y) < max (x / v) (v / x) then y else x)"
    using y Cons.prems(1) by simp
  show ?case
    by (simp only: foldl_Cons step Cons.IH [OF pos ys])
qed

lemma getStandardShutterSpeed_ratio:
  assumes "0 < v"
  shows "getStandardShutterSpeed v =
     Some (foldl (\<lambda>prev curr.
           if max (curr / v) (v / curr) < max (prev / v) (v / prev) then curr else prev) (1/8000)
     [1/4000, 1/2000, 1/1000, 1/500, 1/250, 1/125,
      1/60, 1/30, 1/15, 1/8, 1/4, 1/2, 1, 2, 4, 8, 15, 30])"
proof -
  have "foldl (\<lambda>prev curr.
           if \<bar>log 2 curr - log 2 v\<bar> < \<bar>log 2 prev - log 2 v\<bar> then curr else prev) (1/8000)
     [1/4000, 1/2000, 1/1000, 1/500, 1/250, 1/125,
      1/60, 1/30, 1/15, 1/8, 1/4, 1/2, 1, 2, 4, 8, 15, 30]
    = foldl (\<lambda>prev curr.
           if max (curr / v) (v / curr) < max (prev / v) (v / prev) then curr else prev) (1/8000)
     [1/4000, 1/2000, 1/1000, 1/500, 1/250, 1/125,
      1/60, 1/30, 1/15, 1/8, 1/4, 1/2, 1, 2, 4, 8, 15, 30]"
    by (rule foldl_logdist_ratio [OF assms]) simp_all
  then show ?thesis
    by (simp only: getStandardShutterSpeed_def standardShutterSpeeds_def reduce.simps)
qed

subsection \<open>Rounding to binary64\<close>

text \<open>
  Rounding to the nearest integer is within one half, fixes the integers and never
  decreases; \<open>ulp\<close> is the power of two that puts the magnitude between \<open>2^52\<close> and
  \<open>2^53\<close> units. From these: \<open>round64\<close> is odd, never decreases, is within a relative
  error of \<open>2^-53\<close>, commutes with doubling, fixes its own results and the integers
  below \<open>2^53\<close>.
\<close>

lemma roundTiesToEven_near: "\<bar>of_int (roundTiesToEven z) - z\<bar> \<le> 1/2"
proof -
  have "of_int \<lfloor>z\<rfloor> \<le> z" "z < of_int \<lfloor>z\<rfloor> + 1" by linarith+
  then show ?thesis by (auto simp add: roundTiesToEven_def Let_def)
qed

lemma roundTiesToEven_of_int: "roundTiesToEven (of_int k) = k"
  by (simp add: roundTiesToEven_def)

lemma roundTiesToEven_bounds:
  "\<lfloor>z\<rfloor> \<le> roundTiesToEven z \<and> roundTiesToEven z \<le> \<lfloor>z\<rfloor> + 1"
  by (simp add: roundTiesToEven_def Let_def)

lemma roundTiesToEven_mono:
  assumes "z \<le> w"
  shows "roundTiesToEven z \<le> roundTiesToEven w"
proof (cases "\<lfloor>z\<rfloor> = \<lfloor>w\<rfloor>")
  case True
  then show ?thesis using assms by (auto simp add: roundTiesToEven_def Let_def)
next
  case False
  then have "\<lfloor>z\<rfloor> < \<lfloor>w\<rfloor>" using assms floor_mono [OF assms] by linarith
  then show ?thesis
    using roundTiesToEven_bounds [of z] roundTiesToEven_bounds [of w] by linarith
qed

lemma ulp_pos: "0 < ulp x"
  by (simp add: ulp_def)

lemma ulp_bracket:
  assumes "x \<noteq> 0"
  shows "2^52 * ulp x \<le> \<bar>x\<bar> \<and> \<bar>x\<bar> < 2^53 * ulp x"
proof -
  define e where "e = \<lfloor>log 2 \<bar>x\<bar>\<rfloor>"
  have ax: "0 < \<bar>x\<bar>" using assms by simp
  have "of_int e \<le> log 2 \<bar>x\<bar>" "log 2 \<bar>x\<bar> < of_int e + 1" unfolding e_def by linarith+
  then have "2 powr (of_int e) \<le> \<bar>x\<bar>" "\<bar>x\<bar> < 2 powr (of_int e + 1)"
    using ax by (simp_all add: powr_le_iff less_powr_iff)
  moreover have "2^52 * ulp x = 2 powr (of_int e)"
    by (simp add: ulp_def e_def powr_diff)
  moreover have "2^53 * ulp x = 2 powr (of_int e + 1)"
    by (simp add: ulp_def e_def powr_diff powr_add)
  ultimately show ?thesis by simp
qed

lemma ulp_unique:
  assumes "2^52 * 2 powr (of_int k - 52) \<le> \<bar>x\<bar>" "\<bar>x\<bar> < 2^53 * 2 powr (of_int k - 52)"
  shows "ulp x = 2 powr (of_int k - 52)"
proof -
  have lo: "2 powr (of_int k) \<le> \<bar>x\<bar>" using assms(1) by (simp add: powr_diff)
  have hi: "\<bar>x\<bar> < 2 powr (of_int k + 1)" using assms(2) by (simp add: powr_diff powr_add)
  have ax: "0 < \<bar>x\<bar>" using lo powr_gt_zero [of 2 "of_int k"] by linarith
  have "of_int k \<le> log 2 \<bar>x\<bar>" using lo ax by (simp add: powr_le_iff)
  moreover have "log 2 \<bar>x\<bar> < of_int k + 1" using hi ax by (simp add: less_powr_iff)
  ultimately have "\<lfloor>log 2 \<bar>x\<bar>\<rfloor> = k" by linarith
  then show ?thesis by (simp add: ulp_def)
qed

lemma roundTiesToEven_between:
  assumes "of_int n - 1/2 < z" "z < of_int n + 1/2"
  shows "roundTiesToEven z = n"
proof -
  have "\<bar>of_int (roundTiesToEven z) - z\<bar> \<le> 1/2" by (rule roundTiesToEven_near)
  then have "\<bar>(of_int (roundTiesToEven z) :: real) - of_int n\<bar> < 1" using assms by linarith
  then have "\<bar>roundTiesToEven z - n\<bar> < 1"
    by (metis of_int_diff of_int_abs of_int_less_1_iff)
  then show ?thesis by linarith
qed

lemma roundTiesToEven_tie:
  assumes "z = of_int n + 1/2" "even n"
  shows "roundTiesToEven z = n"
proof -
  have "\<lfloor>z\<rfloor> = n" using assms(1) by linarith
  then show ?thesis using assms by (simp add: roundTiesToEven_def Let_def)
qed

lemma ulp_minus: "ulp (- x) = ulp x"
  by (simp add: ulp_def)

lemma ulp_double:
  assumes "x \<noteq> 0"
  shows "ulp (2 * x) = 2 * ulp x"
proof -
  have "log 2 \<bar>2 * x\<bar> = 1 + log 2 \<bar>x\<bar>"
    using assms by (simp add: abs_mult log_mult_pos)
  then have "\<lfloor>log 2 \<bar>2 * x\<bar>\<rfloor> = 1 + \<lfloor>log 2 \<bar>x\<bar>\<rfloor>" by simp
  then show ?thesis by (simp add: ulp_def powr_add powr_diff)
qed


lemma round64_zero: "round64 0 = 0"
  by (simp add: round64_def)

lemma round64_minus: "round64 (- x) = - round64 x"
  by (simp add: round64_def ulp_minus sgn_minus)

lemma round64_pos_eq:
  assumes "0 < x"
  shows "round64 x = of_int (roundTiesToEven (x / ulp x)) * ulp x"
  using assms by (simp add: round64_def)

lemma quotient_bracket:
  assumes "0 < x"
  shows "2^52 \<le> x / ulp x \<and> x / ulp x < 2^53"
  using ulp_bracket [of x] assms ulp_pos [of x] by (simp add: pos_le_divide_eq pos_divide_less_eq)

lemma mantissa_bracket:
  assumes "0 < x"
  shows "2^52 \<le> roundTiesToEven (x / ulp x) \<and> roundTiesToEven (x / ulp x) \<le> 2^53"
proof -
  have "roundTiesToEven (of_int (2^52)) \<le> roundTiesToEven (x / ulp x)"
    using quotient_bracket [OF assms] by (intro roundTiesToEven_mono) simp
  moreover have "roundTiesToEven (x / ulp x) \<le> roundTiesToEven (of_int (2^53))"
    using quotient_bracket [OF assms] by (intro roundTiesToEven_mono) simp
  ultimately show ?thesis by (simp only: roundTiesToEven_of_int) 
qed





lemma round64_double: "round64 (2 * x) = 2 * round64 x"
proof (cases "x = 0")
  case True then show ?thesis by (simp add: round64_zero)
next
  case False
  then show ?thesis
    using ulp_pos [of x] by (simp add: round64_def ulp_double abs_mult sgn_mult)
qed

lemma round64_error_pos:
  assumes "0 < x"
  shows "\<bar>round64 x - x\<bar> \<le> x / 2^53"
proof -
  have u: "0 < ulp x" by (rule ulp_pos)
  have "\<bar>of_int (roundTiesToEven (x / ulp x)) - x / ulp x\<bar> \<le> 1/2"
    by (rule roundTiesToEven_near)
  then have "\<bar>of_int (roundTiesToEven (x / ulp x)) - x / ulp x\<bar> * ulp x \<le> 1/2 * ulp x"
    using u by (intro mult_right_mono) simp_all
  moreover have "\<bar>of_int (roundTiesToEven (x / ulp x)) - x / ulp x\<bar> * ulp x
      = \<bar>of_int (roundTiesToEven (x / ulp x)) * ulp x - x\<bar>"
  proof -
    have "\<bar>of_int (roundTiesToEven (x / ulp x)) - x / ulp x\<bar> * ulp x
        = \<bar>(of_int (roundTiesToEven (x / ulp x)) - x / ulp x) * ulp x\<bar>"
      using u by (simp add: abs_mult)
    also have "(of_int (roundTiesToEven (x / ulp x)) - x / ulp x) * ulp x
        = of_int (roundTiesToEven (x / ulp x)) * ulp x - x"
      using u by (simp add: left_diff_distrib)
    finally show ?thesis .
  qed
  ultimately have "\<bar>round64 x - x\<bar> \<le> ulp x / 2"
    by (simp add: round64_pos_eq [OF assms])
  moreover have "ulp x \<le> x / 2^52"
    using ulp_bracket [of x] assms by (simp add: pos_le_divide_eq mult.commute)
  ultimately show ?thesis by simp
qed

lemma round64_error: "\<bar>round64 x - x\<bar> \<le> \<bar>x\<bar> / 2^53"
proof -
  consider "0 < x" | "x = 0" | "x < 0" by linarith
  then show ?thesis
  proof cases
    case 1 then show ?thesis using round64_error_pos [of x] by simp
  next
    case 2 then show ?thesis by (simp add: round64_zero)
  next
    case 3
    then have "\<bar>round64 (- x) - (- x)\<bar> \<le> (- x) / 2^53"
      by (intro round64_error_pos) simp
    then show ?thesis using 3 by (simp add: round64_minus)
  qed
qed


lemma ulp_unique_eq:
  assumes "u = 2 powr (of_int k - 52)" "2^52 * u \<le> \<bar>x\<bar>" "\<bar>x\<bar> < 2^53 * u"
  shows "ulp x = u"
  using assms ulp_unique [of k x] by simp

lemma ulp_eval:
  assumes "2^52 \<le> \<bar>x\<bar> * 2^m" "\<bar>x\<bar> * 2^m < 2^53"
  shows "ulp x = 1 / 2^m"
proof (rule ulp_unique_eq [of _ "52 - int m"])
  show "1 / 2^m = (2::real) powr (of_int (52 - int m) - 52)"
    by (simp add: powr_minus powr_realpow divide_inverse)
  show "2^52 * (1 / 2^m) \<le> \<bar>x\<bar>" using assms(1) by (simp add: field_simps)
  show "\<bar>x\<bar> < 2^53 * (1 / 2^m)" using assms(2) by (simp add: field_simps)
qed

lemma round64_eval:
  assumes "0 < x" "2^52 \<le> x * 2^m" "x * 2^m < 2^53"
    and "of_int n - 1/2 < x * 2^m" "x * 2^m < of_int n + 1/2"
  shows "round64 x = of_int n / 2^m"
proof -
  have u: "ulp x = 1 / 2^m" using assms(1-3) by (intro ulp_eval) simp_all
  have "roundTiesToEven (x / ulp x) = n"
    using assms(4,5) by (intro roundTiesToEven_between) (simp_all add: u)
  then show ?thesis by (simp add: round64_pos_eq [OF assms(1)] u)
qed

lemma round64_eval_tie:
  assumes "0 < x" "2^52 \<le> x * 2^m" "x * 2^m < 2^53"
    and "x * 2^m = of_int n + 1/2" "even n"
  shows "round64 x = of_int n / 2^m"
proof -
  have u: "ulp x = 1 / 2^m" using assms(1-3) by (intro ulp_eval) simp_all
  have "roundTiesToEven (x / ulp x) = n"
    using assms(4,5) by (intro roundTiesToEven_tie) (simp_all add: u)
  then show ?thesis by (simp add: round64_pos_eq [OF assms(1)] u)
qed

lemma round64_grid:
  assumes "2^52 \<le> n" "n \<le> 2^53"
  shows "round64 (of_int n * 2 powr (of_int k - 52)) = of_int n * 2 powr (of_int k - 52)"
proof -
  define u :: real where "u = 2 powr (of_int k - 52)"
  have u: "0 < u" by (simp add: u_def)
  have n: "(2^52 :: real) \<le> of_int n" "of_int n \<le> (2^53 :: real)"
    using assms by (simp_all add: of_int_le_iff [symmetric] del: of_int_le_iff)
  have x: "0 < of_int n * u" using n u by (intro mult_pos_pos) simp_all
  show ?thesis
  proof (cases "n = 2^53")
    case False
    then have "n < 2^53" using assms by simp
    then have lt: "of_int n < (2^53 :: real)"
      by (simp add: of_int_less_iff [symmetric] del: of_int_less_iff)
    have "ulp (of_int n * u) = u"
      using n lt u x by (intro ulp_unique_eq [of _ k]) (simp_all add: u_def abs_mult)
    then show ?thesis
      using u unfolding u_def [symmetric]
      by (simp add: round64_pos_eq [OF x] roundTiesToEven_of_int)
  next
    case True
    have u2: "2 powr (of_int (k + 1) - 52) = 2 * u"
      by (simp add: u_def powr_add powr_diff)
    have "ulp (of_int n * u) = 2 * u"
    proof (rule ulp_unique_eq [of _ "k + 1"])
      show "2 * u = 2 powr (of_int (k + 1) - 52)" by (simp only: u2)
      show "2^52 * (2 * u) \<le> \<bar>of_int n * u\<bar>" using u True by (simp add: abs_mult)
      show "\<bar>of_int n * u\<bar> < 2^53 * (2 * u)" using u True by (simp add: abs_mult)
    qed
    moreover have "of_int n * u / (2 * u) = of_int (2^52)"
      using u True by simp
    ultimately have "round64 (of_int n * u) = of_int (2^52) * (2 * u)"
      by (simp only: round64_pos_eq [OF x] roundTiesToEven_of_int)
    then show ?thesis unfolding u_def [symmetric] using True by simp
  qed
qed

lemma round64_idem: "round64 (round64 x) = round64 x"
proof -
  have pos: "round64 (round64 y) = round64 y" if y: "0 < y" for y
  proof -
    have "round64 y = of_int (roundTiesToEven (y / ulp y)) * 2 powr (of_int \<lfloor>log 2 \<bar>y\<bar>\<rfloor> - 52)"
      using y by (simp add: round64_pos_eq ulp_def)
    then show ?thesis
      using mantissa_bracket [OF y] round64_grid [of "roundTiesToEven (y / ulp y)" "\<lfloor>log 2 \<bar>y\<bar>\<rfloor>"]
      by simp
  qed
  consider "0 < x" | "x = 0" | "x < 0" by linarith
  then show ?thesis
  proof cases
    case 1 then show ?thesis by (rule pos)
  next
    case 2 then show ?thesis by (simp add: round64_zero)
  next
    case 3
    then have "round64 (round64 (- x)) = round64 (- x)" by (intro pos) simp
    then show ?thesis by (simp add: round64_minus)
  qed
qed

lemma round64_nat:
  assumes "n < 2^53"
  shows "round64 (real n) = real n"
proof (cases "n = 0")
  case True then show ?thesis by (simp add: round64_zero)
next
  case False
  then have x: "0 < real n" by simp
  define e where "e = \<lfloor>log 2 \<bar>real n\<bar>\<rfloor>"
  have "1 \<le> real n" using False by simp
  then have "0 \<le> log 2 (real n)" by simp
  then have e0: "0 \<le> e" by (simp add: e_def)
  have "real n < 2 powr 53" using assms
    by (metis of_nat_less_iff of_nat_numeral of_nat_power powr_realpow zero_less_numeral numeral_powr_numeral_real)
  then have "log 2 (real n) < 53" using x by (simp add: log_less_iff)
  then have e52: "e \<le> 52" by (simp add: e_def floor_le_iff)
  define m where "m = nat (52 - e)"
  have u: "ulp (real n) = 1 / 2^m"
  proof -
    have "of_int e - (52::real) = - real m" using e52 by (simp add: m_def)
    then have "ulp (real n) = 2 powr (- real m)" unfolding ulp_def e_def by simp
    then show ?thesis by (simp add: powr_minus powr_realpow divide_inverse)
  qed
  have "real n / ulp (real n) = of_int (int n * 2^m)" by (simp add: u)
  then have "roundTiesToEven (real n / ulp (real n)) = int n * 2^m"
    by (simp only: roundTiesToEven_of_int)
  then show ?thesis by (simp add: round64_pos_eq [OF x] u)
qed

lemma round64_int:
  assumes "\<bar>k\<bar> < 2^53"
  shows "round64 (of_int k) = of_int k"
proof (cases "0 \<le> k")
  case True
  then have "round64 (real (nat k)) = real (nat k)" using assms by (intro round64_nat) simp
  then show ?thesis using True by simp
next
  case False
  then have "round64 (real (nat (- k))) = real (nat (- k))" using assms by (intro round64_nat) simp
  then have "round64 (- of_int k) = - of_int k" using False by simp
  then show ?thesis by (simp add: round64_minus)
qed


subsection \<open>The exposure value\<close>

lemma round64_one: "round64 1 = 1"
  using round64_int [of 1] by simp

lemma calibrationFactor_eq:
  "round64 (round64 baseCalibrationFactor * round64 deviceBrightnessCompensation) = round64 1.2"
  by (simp add: baseCalibrationFactor_def deviceBrightnessCompensation_def round64_one round64_idem)

lemma singleMeasurement_eq:
  "singleMeasurement lg l = lg (log2Argument l)"
  unfolding singleMeasurement_def Let_def calibrationFactor_eq log2Argument_def clampLuminance_def ..














lemma round64_upper:
  assumes "0 \<le> y"
  shows "round64 y \<le> y * (1 + 1/2^53)"
  using round64_error [of y] assms by (simp add: algebra_simps abs_if split: if_splits)

lemma round64_lower:
  assumes "0 \<le> y"
  shows "y * (1 - 1/2^53) \<le> round64 y"
  using round64_error [of y] assms by (simp add: algebra_simps abs_if split: if_splits)

lemma sampleLoop_bounds:
  assumes x: "0 \<le> singleMeasurement f l"
    and lo: "real j * singleMeasurement f l * (1 - 1/2^53)^e \<le> t"
    and hi: "t \<le> real j * singleMeasurement f l * (1 + 1/2^53)^e"
  shows "real (j + n) * singleMeasurement f l * (1 - 1/2^53)^(e + n) \<le> sampleLoop f n l t
       \<and> sampleLoop f n l t \<le> real (j + n) * singleMeasurement f l * (1 + 1/2^53)^(e + n)"
proof -
  define X where "X = singleMeasurement f l"
  define c :: real where "c = 1 - 1/2^53"
  define d :: real where "d = 1 + 1/2^53"
  have X: "0 \<le> X" using x by (simp add: X_def)
  have c: "0 \<le> c" "c \<le> 1" by (simp_all add: c_def)
  have d: "1 \<le> d" by (simp add: d_def)
  have "real j * X * c^e \<le> t \<Longrightarrow> t \<le> real j * X * d^e \<Longrightarrow>
        real (j + n) * X * c^(e + n) \<le> sampleLoop f n l t
        \<and> sampleLoop f n l t \<le> real (j + n) * X * d^(e + n)"
  proof (induction n arbitrary: j e t)
    case 0
    then show ?case by simp
  next
    case (Suc n)
    have a: "1 \<le> d^e" using d by (rule one_le_power)
    have b: "0 \<le> c^e" "c^e \<le> 1" using c by (simp_all add: power_le_one)
    have "X * c^e \<le> X" using X b by (simp add: mult_left_le)
    then have s_lo: "real (Suc j) * X * c^e \<le> t + X"
      using Suc.prems(1) by (simp add: algebra_simps)
    have "X \<le> X * d^e" using X a by (simp add: mult_le_cancel_left1)
    then have s_hi: "t + X \<le> real (Suc j) * X * d^e"
      using Suc.prems(2) by (simp add: algebra_simps)
    have nn: "0 \<le> t + X"
    proof -
      have "0 \<le> real (Suc j) * X * c^e" using X b by simp
      then show ?thesis using s_lo by linarith
    qed
    have "real (Suc j) * X * c^e * c \<le> (t + X) * c"
      using s_lo c(1) by (rule mult_right_mono)
    moreover have "(t + X) * c \<le> round64 (t + X)"
      unfolding c_def by (rule round64_lower [OF nn])
    moreover have "real (Suc j) * X * c^e * c = real (Suc j) * X * c^(Suc e)" by simp
    ultimately have r_lo: "real (Suc j) * X * c^(Suc e) \<le> round64 (t + X)"
      by linarith
    have "(t + X) * d \<le> real (Suc j) * X * d^e * d"
      using s_hi d by (intro mult_right_mono) simp_all
    moreover have "round64 (t + X) \<le> (t + X) * d"
      unfolding d_def by (rule round64_upper [OF nn])
    moreover have "real (Suc j) * X * d^e * d = real (Suc j) * X * d^(Suc e)" by simp
    ultimately have r_hi: "round64 (t + X) \<le> real (Suc j) * X * d^(Suc e)"
      by linarith
    have "real (Suc j + n) * X * c^(Suc e + n) \<le> sampleLoop f n l (round64 (t + X))
        \<and> sampleLoop f n l (round64 (t + X)) \<le> real (Suc j + n) * X * d^(Suc e + n)"
      using r_lo r_hi by (rule Suc.IH)
    then show ?case by (simp add: X_def)
  qed
  then show ?thesis using lo hi unfolding X_def c_def d_def by blast
qed

lemma sampleLoop_first:
  assumes "isBinary64 (singleMeasurement f l)"
  shows "sampleLoop f (Suc n) l 0 = sampleLoop f n l (singleMeasurement f l)"
  using assms by (simp add: isBinary64_def)

lemma one_minus_power_le:
  "1 - (1 - 1/2^53 :: real)^n \<le> (1 + 1/2^53)^n - 1"
proof -
  have "1 + real n * (1/2^53) \<le> (1 + 1/2^53 :: real)^n"
    by (rule Bernoulli_inequality) simp
  moreover have "1 + real n * (- (1/2^53)) \<le> (1 + (- (1/2^53)) :: real)^n"
    by (rule Bernoulli_inequality) simp
  ultimately show ?thesis by simp
qed

lemma calculateEV_error_nonneg:
  assumes dbl: "isBinary64 (singleMeasurement f l)" and x: "0 \<le> singleMeasurement f l"
    and n: "0 < n"
  shows "\<exists>e. calculateEV f l n = Some e
           \<and> \<bar>e - singleMeasurement f l\<bar> \<le> ((1 + 1/2^53)^n - 1) * \<bar>singleMeasurement f l\<bar>"
proof -
  define X where "X = singleMeasurement f l"
  define c :: real where "c = 1 - 1/2^53"
  define d :: real where "d = 1 + 1/2^53"
  have c: "0 \<le> c" "c \<le> 1" by (simp_all add: c_def)
  have d: "1 \<le> d" by (simp add: d_def)
  obtain m where m: "n = Suc m" using n by (cases n) simp_all
  have X: "0 \<le> X" using x by (simp add: X_def)
  have "real (1 + m) * singleMeasurement f l * (1 - 1/2^53)^(0 + m) \<le> sampleLoop f m l X
       \<and> sampleLoop f m l X \<le> real (1 + m) * singleMeasurement f l * (1 + 1/2^53)^(0 + m)"
    using x by (intro sampleLoop_bounds) (simp_all add: X_def)
  then have s: "real n * X * c^m \<le> sampleLoop f n l 0"
       "sampleLoop f n l 0 \<le> real n * X * d^m"
    unfolding m sampleLoop_first [OF dbl] c_def d_def by (simp_all add: X_def)
  define q where "q = sampleLoop f n l 0 / real n"
  have q: "X * c^m \<le> q" "q \<le> X * d^m"
    using s n by (simp_all add: q_def field_simps)
  have q0: "0 \<le> q"
  proof -
    have "0 \<le> X * c^m" using X c by simp
    then show ?thesis using q(1) by linarith
  qed
  have "X * c^m * c \<le> q * c" using q(1) c(1) by (rule mult_right_mono)
  moreover have "q * c \<le> round64 q" unfolding c_def by (rule round64_lower [OF q0])
  moreover have "X * c^m * c = X * c^n" by (simp add: m)
  ultimately have r_lo: "X * c^n \<le> round64 q" by linarith
  have "q * d \<le> X * d^m * d" using q(2) d by (intro mult_right_mono) simp_all
  moreover have "round64 q \<le> q * d" unfolding d_def by (rule round64_upper [OF q0])
  moreover have "X * d^m * d = X * d^n" by (simp add: m)
  ultimately have r_hi: "round64 q \<le> X * d^n" by linarith
  have "1 - c^n \<le> d^n - 1" unfolding c_def d_def by (rule one_minus_power_le)
  then have "X * (1 - c^n) \<le> X * (d^n - 1)" using X by (rule mult_left_mono)
  then have "\<bar>round64 q - X\<bar> \<le> (d^n - 1) * X"
    using r_lo r_hi by (simp add: algebra_simps abs_le_iff)
  then have "\<bar>round64 q - X\<bar> \<le> ((1 + 1/2^53)^n - 1) * \<bar>X\<bar>"
    unfolding d_def using X by simp
  then show ?thesis using n unfolding calculateEV_def q_def X_def by simp
qed

lemma singleMeasurement_neg:
  "singleMeasurement (\<lambda>x. - f x) l = - singleMeasurement f l"
  by (simp add: singleMeasurement_def Let_def)

lemma sampleLoop_neg:
  "sampleLoop (\<lambda>x. - f x) n l (- t) = - sampleLoop f n l t"
proof (induction n arbitrary: t)
  case 0
  then show ?case by simp
next
  case (Suc n)
  have "round64 (- t + - singleMeasurement f l) = - round64 (t + singleMeasurement f l)"
    using round64_minus [of "t + singleMeasurement f l"] by simp
  then show ?case using Suc.IH [of "round64 (t + singleMeasurement f l)"]
    by (simp add: singleMeasurement_neg)
qed

lemma calculateEV_neg:
  "calculateEV (\<lambda>x. - f x) l n = map_option uminus (calculateEV f l n)"
  using sampleLoop_neg [of f n l 0] round64_minus [of "sampleLoop f n l 0 / real n"]
  by (simp add: calculateEV_def)

lemma calculateEV_error:
  assumes d: "isBinary64 (singleMeasurement f l)" and n: "0 < n"
  shows "\<exists>e. calculateEV f l n = Some e
           \<and> \<bar>e - singleMeasurement f l\<bar> \<le> ((1 + 1/2^53)^n - 1) * \<bar>singleMeasurement f l\<bar>"
proof (cases "0 \<le> singleMeasurement f l")
  case True
  then show ?thesis using d n by (intro calculateEV_error_nonneg)
next
  case False
  have d': "isBinary64 (singleMeasurement (\<lambda>x. - f x) l)"
    using d by (simp add: singleMeasurement_neg isBinary64_def round64_minus)
  have "0 \<le> singleMeasurement (\<lambda>x. - f x) l" using False by (simp add: singleMeasurement_neg)
  then obtain e where e: "calculateEV (\<lambda>x. - f x) l n = Some e"
    "\<bar>e - singleMeasurement (\<lambda>x. - f x) l\<bar>
       \<le> ((1 + 1/2^53)^n - 1) * \<bar>singleMeasurement (\<lambda>x. - f x) l\<bar>"
    using calculateEV_error_nonneg [OF d' _ n] by blast
  from e(1) have "calculateEV f l n = Some (- e)"
    by (auto simp add: calculateEV_neg)
  moreover have "\<bar>- e - singleMeasurement f l\<bar> = \<bar>e - singleMeasurement (\<lambda>x. - f x) l\<bar>"
    by (simp add: singleMeasurement_neg)
  ultimately show ?thesis using e(2) by (simp add: singleMeasurement_neg)
qed

lemma calculateEV_one:
  assumes "isBinary64 (singleMeasurement f l)"
  shows "calculateEV f l 1 = Some (singleMeasurement f l)"
  using assms by (simp add: calculateEV_def isBinary64_def)

lemma calculateEV_two:
  assumes "isBinary64 (singleMeasurement f l)"
  shows "calculateEV f l 2 = Some (singleMeasurement f l)"
proof -
  have "round64 (singleMeasurement f l + singleMeasurement f l) = 2 * singleMeasurement f l"
    using round64_double [of "singleMeasurement f l"] assms by (simp add: isBinary64_def)
  then show ?thesis using assms by (simp add: calculateEV_def isBinary64_def numeral_2_eq_2)
qed











lemma correctlyRoundedLog2_binary64: "returnsBinary64 correctlyRoundedLog2"
  by (simp add: returnsBinary64_def isBinary64_def correctlyRoundedLog2_def round64_idem)



subsection \<open>The logarithm of twelve\<close>

text \<open>
  The series \<open>- ln (1 - t) = t + t^2/2 + t^3/3 + ...\<close> with its geometric tail encloses
  \<open>ln 2\<close> and \<open>ln (3/2)\<close> in intervals of width \<open>10^-17\<close>; with
  \<open>log 2 12 = 3 + ln (3/2) / ln 2\<close> this decides to which binary64 number the logarithm
  of 12 rounds.
\<close>

lemma ln_series_bounds:
  fixes t :: real
  assumes t: "0 < t" "t < 1"
  shows "(\<Sum>n<K. t^(Suc n) / real (Suc n)) \<le> - ln (1 - t)
       \<and> - ln (1 - t) \<le> (\<Sum>n<K. t^(Suc n) / real (Suc n)) + t^(Suc K) / ((1 - t) * real (Suc K))"
proof -
  define g where "g n = t^(Suc n) / real (Suc n)" for n
  have g0: "0 \<le> g n" for n using t by (simp add: g_def)
  have gle: "g n \<le> t^n" for n
  proof -
    have "t^(Suc n) / real (Suc n) \<le> t^(Suc n) / 1"
      using t by (intro divide_left_mono) simp_all
    also have "\<dots> \<le> t^n" using t by (simp add: mult_left_le_one_le)
    finally show ?thesis by (simp add: g_def)
  qed
  have geo: "summable (\<lambda>n. t^n)" using t by simp
  have sg: "summable g"
    using geo by (rule summable_comparison_test') (use g0 gle in \<open>simp add: abs_of_nonneg\<close>)
  have "ln (1 - t) = (\<Sum>n. (-1)^n * (1 / real (n + 1)) * ((1 - t) - 1)^(Suc n))"
    using t by (intro ln_series) simp_all
  also have "(\<lambda>n. (-1)^n * (1 / real (n + 1)) * ((1 - t) - 1)^(Suc n)) = (\<lambda>n. - g n)"
  proof
    fix n
    have "(1 - t) - 1 = - t" by simp
    then have "((1 - t) - 1)^(Suc n) = (- 1)^(Suc n) * t^(Suc n)"
      using power_minus [of t "Suc n"] by (simp only:)
    moreover have "(- 1 :: real)^n * (- 1)^(Suc n) = - 1"
      by (simp add: power_mult_distrib [symmetric])
    moreover have gen: "a * (1 / r) * (b * c) = (a * b) * (c / r)" for a b c r :: real
      by simp
    moreover have "real (n + 1) = real (Suc n)" by simp
    ultimately have "(-1)^n * (1 / real (n + 1)) * ((1 - t) - 1)^(Suc n)
        = (- 1) * (t^(Suc n) / real (Suc n))"
      by (simp only:)
    also have "\<dots> = - g n" by (simp add: g_def)
    finally show "(-1)^n * (1 / real (n + 1)) * ((1 - t) - 1)^(Suc n) = - g n" .
  qed
  also have "(\<Sum>n. - g n) = - suminf g" using sg by (rule suminf_minus)
  finally have ln: "- ln (1 - t) = suminf g" by simp
  have lower: "sum g {..<K} \<le> suminf g"
    using sg by (rule sum_le_suminf) (simp_all add: g0)
  define h where "h n = t^(Suc K) / real (Suc K) * t^n" for n
  have sh: "summable h" unfolding h_def using geo by (rule summable_mult)
  have hsum: "suminf h = t^(Suc K) / real (Suc K) * (1 / (1 - t))"
  proof -
    have "suminf h = t^(Suc K) / real (Suc K) * (\<Sum>n. t^n)"
      unfolding h_def using geo by (rule suminf_mult)
    moreover have "(\<Sum>n. t^n) = 1 / (1 - t)" using t by (intro suminf_geometric) simp
    ultimately show ?thesis by (simp only:)
  qed
  have gh: "g (n + K) \<le> h n" for n
  proof -
    have "t^(Suc (n + K)) / real (Suc (n + K)) \<le> t^(Suc (n + K)) / real (Suc K)"
      using t by (intro divide_left_mono) simp_all
    also have "\<dots> = h n" by (simp add: h_def power_add mult.commute)
    finally show ?thesis by (simp add: g_def)
  qed
  have sgk: "summable (\<lambda>n. g (n + K))" using sg by (simp add: summable_iff_shift)
  have "suminf g = (\<Sum>n. g (n + K)) + sum g {..<K}"
    using sg by (rule suminf_split_initial_segment)
  also have "(\<Sum>n. g (n + K)) \<le> suminf h" using gh sgk sh by (rule suminf_le)
  finally have "suminf g \<le> suminf h + sum g {..<K}" by simp
  moreover have "t^(Suc K) / real (Suc K) * (1 / (1 - t)) = t^(Suc K) / ((1 - t) * real (Suc K))"
    by (simp add: mult.commute)
  ultimately have upper: "suminf g \<le> sum g {..<K} + t^(Suc K) / ((1 - t) * real (Suc K))"
    unfolding hsum by linarith
  show ?thesis using lower upper unfolding ln g_def by simp
qed

lemma ln_2_bounds:
  "(\<Sum>n<52. (1/2)^(Suc n) / real (Suc n)) \<le> ln (2::real)
   \<and> ln (2::real) \<le> (\<Sum>n<52. (1/2)^(Suc n) / real (Suc n)) + (1/2)^(Suc 52) / ((1 - 1/2) * real (Suc 52))"
proof -
  have eq: "- ln (1 - 1/2 :: real) = ln 2"
    by (simp add: ln_div)
  have "(\<Sum>n<52. (1/2)^(Suc n) / real (Suc n)) \<le> - ln (1 - 1/2 :: real)
   \<and> - ln (1 - 1/2 :: real) \<le> (\<Sum>n<52. (1/2)^(Suc n) / real (Suc n)) + (1/2)^(Suc 52) / ((1 - 1/2) * real (Suc 52))"
    by (rule ln_series_bounds) simp_all
  then show ?thesis unfolding eq .
qed

lemma ln_3_2_bounds:
  "(\<Sum>n<33. (1/3)^(Suc n) / real (Suc n)) \<le> ln (3/2 :: real)
   \<and> ln (3/2 :: real) \<le> (\<Sum>n<33. (1/3)^(Suc n) / real (Suc n)) + (1/3)^(Suc 33) / ((1 - 1/3) * real (Suc 33))"
proof -
  have eq: "- ln (1 - 1/3 :: real) = ln (3/2)"
    by (simp add: ln_div)
  have "(\<Sum>n<33. (1/3)^(Suc n) / real (Suc n)) \<le> - ln (1 - 1/3 :: real)
   \<and> - ln (1 - 1/3 :: real) \<le> (\<Sum>n<33. (1/3)^(Suc n) / real (Suc n)) + (1/3)^(Suc 33) / ((1 - 1/3) * real (Suc 33))"
    by (rule ln_series_bounds) simp_all
  then show ?thesis unfolding eq .
qed


lemma ln_2_numeric:
  "6931471805599453053 / 10^19 \<le> ln (2::real) \<and> ln (2::real) \<le> 6931471805599453095 / 10^19"
proof -
  have "(6931471805599453053 / 10^19 :: real) \<le> (\<Sum>n<52. (1/2)^(Suc n) / real (Suc n))"
    by (simp add: eval_nat_numeral)
  moreover have "(\<Sum>n<52. (1/2)^(Suc n) / real (Suc n))
         + (1/2)^(Suc 52) / ((1 - 1/2) * real (Suc 52))
       \<le> (6931471805599453095 / 10^19 :: real)"
    by (simp add: eval_nat_numeral)
  ultimately show ?thesis using ln_2_bounds by linarith
qed

lemma ln_3_2_numeric:
  "4054651081081643793 / 10^19 \<le> ln (3/2 :: real) \<and> ln (3/2 :: real) \<le> 4054651081081643821 / 10^19"
proof -
  have "(4054651081081643793 / 10^19 :: real) \<le> (\<Sum>n<33. (1/3)^(Suc n) / real (Suc n))"
    by (simp add: eval_nat_numeral)
  moreover have "(\<Sum>n<33. (1/3)^(Suc n) / real (Suc n))
         + (1/3)^(Suc 33) / ((1 - 1/3) * real (Suc 33))
       \<le> (4054651081081643821 / 10^19 :: real)"
    by (simp add: eval_nat_numeral)
  ultimately show ?thesis using ln_3_2_bounds by linarith
qed

lemma log_2_12_bounds:
  "16145235782385000 - 1 < log 2 12 * 2^52 \<and> log 2 12 * 2^52 < 16145235782385000 + 1"
proof -
  define a where "a = ln (2::real)"
  define b where "b = ln (3/2 :: real)"
  have a: "6931471805599453053 / 10^19 \<le> a" "a \<le> 6931471805599453095 / 10^19"
    using ln_2_numeric by (simp_all add: a_def)
  have b: "4054651081081643793 / 10^19 \<le> b" "b \<le> 4054651081081643821 / 10^19"
    using ln_3_2_numeric by (simp_all add: b_def)
  have a0: "0 < a" using a(1) by simp
  have "ln (12::real) = ln (2^3 * (3/2))" by simp
  also have "\<dots> = ln (2^3) + ln (3/2 :: real)" by (intro ln_mult_pos) simp_all
  also have "ln ((2::real)^3) = 3 * ln 2" using ln_realpow [of 2 3] by simp
  finally have "log 2 12 = (3 * a + b) / a" by (simp add: log_def a_def b_def)
  then have l: "log 2 12 = 3 + b / a" using a0 by (simp add: field_simps)
  have "(16145235782385000 - 1 - 3 * 2^52) * a < b * 2^52" using a b by simp
  then have lo: "16145235782385000 - 1 < (3 + b / a) * 2^52"
    using a0 by (simp add: field_simps)
  have "b * 2^52 < (16145235782385000 + 1 - 3 * 2^52) * a" using a b by simp
  then have hi: "(3 + b / a) * 2^52 < 16145235782385000 + 1"
    using a0 by (simp add: field_simps)
  show ?thesis unfolding l using lo hi ..
qed

lemma correctlyRoundedLog2_12:
  "correctlyRoundedLog2 12 = 8072617891192500 / 2^51"
proof -
  have b: "16145235782385000 - 1 < log 2 12 * 2^52" "log 2 12 * 2^52 < 16145235782385000 + 1"
    using log_2_12_bounds by simp_all
  have "round64 (log 2 12) = of_int 8072617891192500 / 2^51"
    using b by (intro round64_eval) simp_all
  then show ?thesis by (simp add: correctlyRoundedLog2_def)
qed

lemma round64_tenth: "round64 (0.1) = 7205759403792794 / 2^56"
  using round64_eval [of "0.1" 56 7205759403792794] by simp

lemma round64_minLuminance: "round64 (0.001) = 4611686018427388 / 2^62"
  using round64_eval [of "0.001" 62 4611686018427388] by simp

lemma round64_maxLuminance: "round64 (0.95) = 8556839292003942 / 2^53"
  using round64_eval [of "0.95" 53 8556839292003942] by simp

lemma round64_calibration: "round64 (1.2) = 5404319552844595 / 2^52"
  using round64_eval [of "1.2" 52 5404319552844595] by simp




subsection \<open>The exposure value of three luminances\<close>

lemma clampLuminance_tenth: "clampLuminance (round64 0.1) = round64 0.1"
  unfolding clampLuminance_def round64_tenth round64_minLuminance round64_maxLuminance by simp

lemma log2Argument_tenth: "log2Argument (round64 0.1) = 12"
proof -
  have a: "round64 (7205759403792794 / 2^56 * 100) = 10"
    using round64_eval [of "7205759403792794 / 2^56 * 100" 49 5629499534213120] by simp
  have b: "round64 (10 * (5404319552844595 / 2^52)) = 12"
    using round64_eval [of "10 * (5404319552844595 / 2^52)" 49 6755399441055744] by simp
  show ?thesis
    unfolding log2Argument_def clampLuminance_tenth
    unfolding round64_tenth a round64_calibration b ..
qed

lemma singleMeasurement_tenth:
  "singleMeasurement correctlyRoundedLog2 (round64 0.1) = 8072617891192500 / 2^51"
  by (simp only: singleMeasurement_eq log2Argument_tenth correctlyRoundedLog2_12)

lemma sampleLoop_tenth:
  "sampleLoop correctlyRoundedLog2 5 (round64 0.1) 0 = 5045386181995312 / 2^48"
proof -
  define X :: real where "X = 8072617891192500 / 2^51"
  define S2 :: real where "S2 = 8072617891192500 / 2^50"
  define S3 :: real where "S3 = 6054463418394375 / 2^49"
  define S4 :: real where "S4 = 8072617891192500 / 2^49"
  define S5 :: real where "S5 = 5045386181995312 / 2^48"
  have x: "singleMeasurement correctlyRoundedLog2 (round64 0.1) = X"
    unfolding X_def by (rule singleMeasurement_tenth)
  have s1: "round64 (0 + X) = X"
    unfolding X_def using round64_eval [of "8072617891192500 / 2^51" 51 8072617891192500] by simp
  have s2: "round64 (X + X) = S2"
    unfolding X_def S2_def
    using round64_eval [of "8072617891192500 / 2^51 + 8072617891192500 / 2^51" 50 8072617891192500]
    by simp
  have s3: "round64 (S2 + X) = S3"
    unfolding X_def S2_def S3_def
    using round64_eval [of "8072617891192500 / 2^50 + 8072617891192500 / 2^51" 49 6054463418394375]
    by simp
  have s4: "round64 (S3 + X) = S4"
    unfolding X_def S3_def S4_def
    using round64_eval [of "6054463418394375 / 2^49 + 8072617891192500 / 2^51" 49 8072617891192500]
    by simp
  have s5: "round64 (S4 + X) = S5"
    unfolding X_def S4_def S5_def
    using round64_eval_tie [of "8072617891192500 / 2^49 + 8072617891192500 / 2^51" 48 5045386181995312]
    by simp
  have "sampleLoop correctlyRoundedLog2 (Suc (Suc (Suc (Suc (Suc 0))))) (round64 0.1) 0 = S5"
    by (simp only: sampleLoop.simps x s1 s2 s3 s4 s5)
  moreover have "(5::nat) = Suc (Suc (Suc (Suc (Suc 0))))" by simp
  ultimately show ?thesis unfolding S5_def by (simp only:)
qed

lemma calculateEV_tenth_5:
  "calculateEV correctlyRoundedLog2 (round64 0.1) 5 = Some (8072617891192499 / 2^51)"
proof -
  have "round64 (5045386181995312 / 2^48 / real (5::nat)) = 8072617891192499 / 2^51"
    using round64_eval [of "5045386181995312 / 2^48 / real (5::nat)" 51 8072617891192499] by simp
  then show ?thesis unfolding calculateEV_def sampleLoop_tenth by simp
qed

lemma calculateEV_tenth_1:
  "calculateEV correctlyRoundedLog2 (round64 0.1) 1 = Some (8072617891192500 / 2^51)"
proof -
  have "isBinary64 (singleMeasurement correctlyRoundedLog2 (round64 0.1))"
    using correctlyRoundedLog2_binary64
    by (simp add: returnsBinary64_def singleMeasurement_eq)
  then show ?thesis
    using calculateEV_one [of correctlyRoundedLog2 "round64 0.1"]
    by (simp only: singleMeasurement_tenth)
qed






text \<open>
  C9, as the specification states it, asks that every sample count gives the result of
  one sample. The rounding of the repeated sum breaks it. For the luminance 0.1 the
  argument of the logarithm is 12; one sample gives 3.584962500721156
  (\<open>8072617891192500 / 2^51\<close>), five samples give 3.5849625007211556, one unit in the
  last place below: the fifth partial sum lies halfway between two binary64 numbers and
  rounds to the even one, and the division by five does not come back.
\<close>

theorem calculateEV_depends_on_sample_count:
  "calculateEV correctlyRoundedLog2 (round64 0.1) 1 = Some (8072617891192500 / 2^51)
   \<and> calculateEV correctlyRoundedLog2 (round64 0.1) 5 = Some (8072617891192499 / 2^51)
   \<and> calculateEV correctlyRoundedLog2 (round64 0.1) 5
       \<noteq> calculateEV correctlyRoundedLog2 (round64 0.1) 1"
  unfolding calculateEV_tenth_1 calculateEV_tenth_5 by simp

text \<open>
  C9, amended. For a \<^verbatim>\<open>Math.log2\<close> that returns binary64 numbers and every luminance,
  the single measurement is \<^verbatim>\<open>Math.log2\<close> of the luminance clamped to [0.001, 0.95]
  times 100 times the calibration factor 1.2, each product rounded; one sample and two
  samples give exactly the single measurement; \<open>n \<ge> 1\<close> samples give a value whose
  distance from the single measurement is at most \<open>(1 + 2^-53)^n - 1\<close> times its
  magnitude.
\<close>

theorem calculateEV_sample_count:
  assumes "returnsBinary64 mathLog2" and "1 \<le> n"
  shows "singleMeasurement mathLog2 l
           = mathLog2 (round64 (round64 (max (round64 0.001) (min (round64 0.95) l) * 100)
                                  * round64 1.2))
       \<and> calculateEV mathLog2 l 1 = Some (singleMeasurement mathLog2 l)
       \<and> calculateEV mathLog2 l 2 = Some (singleMeasurement mathLog2 l)
       \<and> (\<exists>e. calculateEV mathLog2 l n = Some e
              \<and> \<bar>e - singleMeasurement mathLog2 l\<bar>
                   \<le> ((1 + 1/2^53)^n - 1) * \<bar>singleMeasurement mathLog2 l\<bar>)"
proof -
  have d: "isBinary64 (singleMeasurement mathLog2 l)"
    using assms(1) by (simp add: returnsBinary64_def singleMeasurement_eq)
  have "singleMeasurement mathLog2 l
      = mathLog2 (round64 (round64 (max (round64 0.001) (min (round64 0.95) l) * 100)
                  * round64 1.2))"
    unfolding singleMeasurement_eq log2Argument_def clampLuminance_def ..
  moreover have "0 < n" using assms(2) by simp
  ultimately show ?thesis
    using calculateEV_one [OF d] calculateEV_two [OF d] calculateEV_error [OF d, of n]
    by (simp only: simp_thms)
qed

theorem calculateEV_sample_count_witness:
  "returnsBinary64 correctlyRoundedLog2 \<and> (1::nat) \<le> 5
   \<and> singleMeasurement correctlyRoundedLog2 (round64 0.1) = 8072617891192500 / 2^51
   \<and> calculateEV correctlyRoundedLog2 (round64 0.1) 1 = Some (8072617891192500 / 2^51)
   \<and> calculateEV correctlyRoundedLog2 (round64 0.1) 2 = Some (8072617891192500 / 2^51)
   \<and> (\<exists>e. calculateEV correctlyRoundedLog2 (round64 0.1) 5 = Some e
          \<and> \<bar>e - 8072617891192500 / 2^51\<bar>
               \<le> ((1 + 1/2^53)^5 - 1) * \<bar>8072617891192500 / 2^51\<bar>)"
proof -
  have n: "(1::nat) \<le> 5" by simp
  show ?thesis
    using calculateEV_sample_count [OF correctlyRoundedLog2_binary64 n, of "round64 0.1"]
      correctlyRoundedLog2_binary64 n
    unfolding singleMeasurement_tenth by blast
qed




subsection \<open>The solver of the composable\<close>

text \<open>
  C10. In shutter priority with the held shutter speed at the invalid sentinel 0,
  \<^term>\<open>updateExposureParams\<close> stores the exposure value and changes nothing else: the
  guard \<open>shutterSpeed > 0\<close> skips the solve, so aperture and shutter speed stay. The
  same guard in the view makes its solver return the state as it is, and
  \<^verbatim>\<open>analyzeBrightness\<close> leave aperture and shutter speed as they are.
\<close>

theorem invalid_shutter_skips_solve:
  assumes "typeFlag s = Shutter" "shutterSpeed s = 0"
    and "typeFlagV u = Shutter" "shutterSpeedV u = 0"
  shows "updateExposureParams ev s = Some (s\<lparr>currentEV := ev\<rparr>)
       \<and> solveExposure calculatedEV u = Some u
       \<and> (\<exists>u'. analyzeBrightness video context u = Some u'
             \<and> apertureV u' = apertureV u \<and> shutterSpeedV u' = shutterSpeedV u)"
proof -
  have "updateExposureParams ev s = Some (s\<lparr>currentEV := ev\<rparr>)"
    using assms(1,2) by (simp add: updateExposureParams_def)
  moreover have skip: "solveExposure e u' = Some u'"
    if "typeFlagV u' = Shutter" "shutterSpeedV u' = 0" for e u'
    using that by (simp add: solveExposure_def)
  moreover have "\<exists>u'. analyzeBrightness video context u = Some u'
             \<and> apertureV u' = apertureV u \<and> shutterSpeedV u' = shutterSpeedV u"
    using assms(3,4) by (simp add: analyzeBrightness_def Let_def skip split: option.splits)
  ultimately show ?thesis using assms(3,4) by simp
qed

theorem invalid_shutter_skips_solve_witness:
  "typeFlag (shutterHeld\<lparr>shutterSpeed := 0\<rparr>) = Shutter
   \<and> shutterSpeed (shutterHeld\<lparr>shutterSpeed := 0\<rparr>) = 0
   \<and> typeFlagV (shutterHeldView\<lparr>shutterSpeedV := 0\<rparr>) = Shutter
   \<and> shutterSpeedV (shutterHeldView\<lparr>shutterSpeedV := 0\<rparr>) = 0
   \<and> updateExposureParams 7 (shutterHeld\<lparr>shutterSpeed := 0\<rparr>)
       = Some (shutterHeld\<lparr>shutterSpeed := 0, currentEV := 7\<rparr>)
   \<and> solveExposure (Num 7) (shutterHeldView\<lparr>shutterSpeedV := 0\<rparr>)
       = Some (shutterHeldView\<lparr>shutterSpeedV := 0\<rparr>)"
  using invalid_shutter_skips_solve
    [of "shutterHeld\<lparr>shutterSpeed := 0\<rparr>" "shutterHeldView\<lparr>shutterSpeedV := 0\<rparr>" 7 "Num 7"]
  by (simp add: shutterHeld_def shutterHeldView_def meteredView_def)

lemma standardShutterSpeeds_pos:
  assumes "t \<in> set standardShutterSpeeds"
  shows "0 < t"
  using assms by (auto simp add: standardShutterSpeeds_def)

lemma getStandardShutterSpeed_closest:
  "\<exists>r. getStandardShutterSpeed v = Some r \<and> r \<in> set standardShutterSpeeds
       \<and> (\<forall>t\<in>set standardShutterSpeeds. \<bar>log 2 r - log 2 v\<bar> \<le> \<bar>log 2 t - log 2 v\<bar>)"
proof -
  let ?d = "\<lambda>c. \<bar>log 2 c - log 2 v\<bar>"
  let ?f = "\<lambda>prev curr. if ?d curr < ?d prev then curr else prev"
  obtain x xs where tab: "standardShutterSpeeds = x # xs"
    unfolding standardShutterSpeeds_def by blast
  have res: "getStandardShutterSpeed v = Some (foldl ?f x xs)"
    by (simp only: getStandardShutterSpeed_def tab reduce.simps)
  have "foldl ?f x xs \<in> set (x # xs)"
    by (rule foldl_closest_mem [where d = ?d])
  moreover have "\<forall>t\<in>set (x # xs). ?d (foldl ?f x xs) \<le> ?d t"
    using foldl_closest_min [where d = ?d] by blast
  ultimately show ?thesis using res tab by simp
qed

text \<open>
  C1. In aperture priority, for every exposure value, compensation, ISO above zero and
  held aperture, \<^term>\<open>updateExposureParams\<close> works on the raw shutter value of the
  specification: the shutter speed becomes the sentinel 0 exactly when the raw value is
  below 1/8000 or above 30 (so exactly 30 is valid), and otherwise it is the snap of the
  raw value, an entry of the standard shutter scale at the least distance between the
  logarithms.
\<close>

theorem updateExposureParams_aperture_priority:
  assumes "typeFlag s = Aperture" "0 < iso s"
  shows "let raw = spec_shutterRaw ev (exposureCompensation s) (iso s) (aperture s) in
         \<exists>r. updateExposureParams ev s = Some (s\<lparr>currentEV := ev, shutterSpeed := r\<rparr>)
          \<and> (r = 0 \<longleftrightarrow> raw < 1/8000 \<or> 30 < raw)
          \<and> (if raw < 1/8000 \<or> 30 < raw then r = 0
              else getStandardShutterSpeed raw = Some r \<and> r \<in> set standardShutterSpeeds
                \<and> (\<forall>t\<in>set standardShutterSpeeds.
                      \<bar>log 2 r - log 2 raw\<bar> \<le> \<bar>log 2 t - log 2 raw\<bar>))"
proof -
  define raw where "raw = spec_shutterRaw ev (exposureCompensation s) (iso s) (aperture s)"
  have raw: "2 powr (- (ev - exposureCompensation s)) * (100 / iso s) * (aperture s)\<^sup>2 = raw"
    by (simp add: raw_def spec_shutterRaw_def)
  show ?thesis
  proof (cases "raw < 1/8000 \<or> 30 < raw")
    case True
    then have "updateExposureParams ev s = Some (s\<lparr>currentEV := ev, shutterSpeed := 0\<rparr>)"
      using assms(1) raw by (simp add: updateExposureParams_def Let_def)
    then show ?thesis using True unfolding Let_def raw_def [symmetric] by simp
  next
    case False
    obtain r where r: "getStandardShutterSpeed raw = Some r" "r \<in> set standardShutterSpeeds"
      "\<forall>t\<in>set standardShutterSpeeds. \<bar>log 2 r - log 2 raw\<bar> \<le> \<bar>log 2 t - log 2 raw\<bar>"
      using getStandardShutterSpeed_closest [of raw] by blast
    have "updateExposureParams ev s = Some (s\<lparr>currentEV := ev, shutterSpeed := r\<rparr>)"
      using assms(1) raw False r(1) by (simp add: updateExposureParams_def Let_def)
    moreover have "r \<noteq> 0" using standardShutterSpeeds_pos [OF r(2)] by simp
    ultimately show ?thesis using False r unfolding Let_def raw_def [symmetric] by auto
  qed
qed

theorem updateExposureParams_aperture_priority_witness:
  "typeFlag \<lparr>currentEV = 3, aperture = sqrt 30, shutterSpeed = 1/60, iso = 100,
      exposureCompensation = 0, typeFlag = Aperture\<rparr> = Aperture
   \<and> spec_shutterRaw 0 0 100 (sqrt 30) = 30
   \<and> updateExposureParams 0
       \<lparr>currentEV = 3, aperture = sqrt 30, shutterSpeed = 1/60, iso = 100,
        exposureCompensation = 0, typeFlag = Aperture\<rparr>
     = Some \<lparr>currentEV = 0, aperture = sqrt 30, shutterSpeed = 30, iso = 100,
        exposureCompensation = 0, typeFlag = Aperture\<rparr>"
proof -
  have raw: "spec_shutterRaw 0 0 100 (sqrt 30) = 30"
    by (simp add: spec_shutterRaw_def)
  have snap: "getStandardShutterSpeed 30 = Some 30"
    by (simp add: getStandardShutterSpeed_ratio)
  show ?thesis
    using updateExposureParams_aperture_priority
      [of "\<lparr>currentEV = 3, aperture = sqrt 30, shutterSpeed = 1/60, iso = 100,
        exposureCompensation = 0, typeFlag = Aperture\<rparr>" 0]
    by (simp add: raw snap Let_def)
qed

text \<open>A raw value of 30.0001 is invalid.\<close>

lemma updateExposureParams_just_above_thirty:
  "spec_shutterRaw 0 0 100 (sqrt (300001/10000)) = 300001/10000
   \<and> updateExposureParams 0
       \<lparr>currentEV = 3, aperture = sqrt (300001/10000), shutterSpeed = 1/60, iso = 100,
        exposureCompensation = 0, typeFlag = Aperture\<rparr>
     = Some \<lparr>currentEV = 0, aperture = sqrt (300001/10000), shutterSpeed = 0, iso = 100,
        exposureCompensation = 0, typeFlag = Aperture\<rparr>"
  by (simp add: spec_shutterRaw_def updateExposureParams_def)

text \<open>
  C4, as the specification states it, expects the shutter 1/30 for EV 10, ISO 100, no
  compensation and the aperture 8 in aperture priority. The raw value is 1/16, and the
  table holds 1/15, which is closer to it than 1/30 is.
\<close>

theorem scenario_ev10_not_one_thirtieth:
  "updateExposureParams 10
       \<lparr>currentEV = 0, aperture = 8, shutterSpeed = 0, iso = 100,
        exposureCompensation = 0, typeFlag = Aperture\<rparr>
     \<noteq> Some \<lparr>currentEV = 10, aperture = 8, shutterSpeed = 1/30, iso = 100,
        exposureCompensation = 0, typeFlag = Aperture\<rparr>"
  by (simp add: updateExposureParams_def getStandardShutterSpeed_ratio powr_neg_numeral)

text \<open>
  C4, amended. For EV 10, ISO 100, no compensation and the aperture 8 in aperture
  priority the raw shutter value is 0.0625 and the solver returns the valid shutter
  speed 1/15, the entry of the standard shutter scale closest to 1/16.
\<close>

theorem scenario_ev10_one_fifteenth:
  "spec_shutterRaw 10 0 100 8 = 0.0625
   \<and> updateExposureParams 10
       \<lparr>currentEV = 0, aperture = 8, shutterSpeed = 0, iso = 100,
        exposureCompensation = 0, typeFlag = Aperture\<rparr>
     = Some \<lparr>currentEV = 10, aperture = 8, shutterSpeed = 1/15, iso = 100,
        exposureCompensation = 0, typeFlag = Aperture\<rparr>"
  by (simp add: spec_shutterRaw_def updateExposureParams_def getStandardShutterSpeed_ratio
      powr_neg_numeral)

subsection \<open>The luminance of a frame\<close>

lemma linearRGB_range:
  assumes "0 \<le> c" "c \<le> 1"
  shows "0 \<le> linearRGB c \<and> linearRGB c \<le> 1"
proof (cases "c \<le> 0.03928")
  case True
  then show ?thesis using assms by (simp add: linearRGB_def)
next
  case False
  have "\<bar>(c + 0.055) / 1.055\<bar> \<le> 1" using assms by simp
  then have "((c + 0.055) / 1.055) powr 2.4 \<le> 1" by (intro powr_le1) simp_all
  then show ?thesis using False by (simp add: linearRGB_def)
qed

lemma linearRGB_zero: "linearRGB 0 = 0"
  by (simp add: linearRGB_def)

lemma linearRGB_one: "linearRGB 1 = 1"
  by (simp add: linearRGB_def)

lemma pixel_index_bound:
  fixes x y w h :: nat
  assumes "x < w" "y < h"
  shows "y * w + x < w * h"
proof -
  have "y * w + x < Suc y * w" using assms(1) by simp
  also have "\<dots> \<le> h * w" using assms(2) by (intro mult_le_mono1) simp
  finally show ?thesis by (simp add: mult.commute)
qed

lemma channel_range:
  assumes "wellFormed img" "i < length (data img)"
  shows "\<exists>r. channel (data img) i = Num r \<and> 0 \<le> r \<and> r \<le> 1"
proof -
  have "data img ! i \<in> set (data img)" using assms(2) by simp
  then have "data img ! i \<le> 255" using assms(1) by (simp add: wellFormed_def)
  then have "0 \<le> real (data img ! i) / 255" "real (data img ! i) / 255 \<le> 1" by simp_all
  moreover have "channel (data img) i = Num (real (data img ! i) / 255)"
    using assms(2) by (simp add: channel_def)
  ultimately show ?thesis by blast
qed

lemma weight_range:
  "4/10 \<le> (if isCenter img x y then centerWeight else 1 - centerWeight)
   \<and> (if isCenter img x y then centerWeight else 1 - centerWeight) \<le> 6/10"
  by (simp add: centerWeight_def)

lemma pixelLuminance_range:
  assumes "wellFormed img" "x < width img" "y < height img"
  shows "\<exists>l. pixelLuminance img x y = Num l \<and> 0 \<le> l \<and> l \<le> 6/10"
proof -
  let ?i = "(y * width img + x) * 4"
  let ?w = "if isCenter img x y then centerWeight else 1 - centerWeight"
  have "y * width img + x < width img * height img"
    using assms(2,3) by (rule pixel_index_bound)
  then have len: "?i + 2 < length (data img)"
    using assms(1) by (simp add: wellFormed_def)
  obtain r where r: "channel (data img) ?i = Num r" "0 \<le> r" "r \<le> 1"
    using channel_range [OF assms(1), of ?i] len by auto
  obtain g where g: "channel (data img) (?i + 1) = Num g" "0 \<le> g" "g \<le> 1"
    using channel_range [OF assms(1), of "?i + 1"] len by auto
  obtain b where b: "channel (data img) (?i + 2) = Num b" "0 \<le> b" "b \<le> 1"
    using channel_range [OF assms(1), of "?i + 2"] len by auto
  let ?m = "0.2126 * linearRGB r + 0.7152 * linearRGB g + 0.0722 * linearRGB b"
  have m: "0 \<le> ?m" "?m \<le> 1"
    using linearRGB_range [OF r(2,3)] linearRGB_range [OF g(2,3)] linearRGB_range [OF b(2,3)]
    by simp_all
  have w: "0 \<le> ?w" "?w \<le> 6/10" using weight_range [of img x y] by simp_all
  have "0 \<le> ?m * ?w" using m(1) w(1) by (rule mult_nonneg_nonneg)
  moreover have "?m * ?w \<le> 1 * (6/10)" using m w by (intro mult_mono) simp_all
  moreover have "pixelLuminance img x y = Num (?m * ?w)"
    using r(1) g(1) b(1) by (simp add: pixelLuminance_def Let_def)
  ultimately show ?thesis by simp
qed

lemma pixelLuminance_uniform:
  assumes "wellFormed img" "uniformRGB img c" "x < width img" "y < height img"
  shows "pixelLuminance img x y
       = Num (linearRGB (real c / 255) * (if isCenter img x y then centerWeight else 1 - centerWeight))"
proof -
  let ?p = "y * width img + x"
  have p: "?p < width img * height img"
    using assms(3,4) by (rule pixel_index_bound)
  then have len: "?p * 4 + 2 < length (data img)"
    using assms(1) by (simp add: wellFormed_def)
  have d: "data img ! (?p * 4) = c" "data img ! (?p * 4 + 1) = c" "data img ! (?p * 4 + 2) = c"
    using assms(2) [unfolded uniformRGB_def, rule_format, OF p] by simp_all
  have "channel (data img) (?p * 4) = Num (real c / 255)"
    "channel (data img) (?p * 4 + 1) = Num (real c / 255)"
    "channel (data img) (?p * 4 + 2) = Num (real c / 255)"
    using len d by (simp_all add: channel_def)
  then show ?thesis by (simp add: pixelLuminance_def Let_def algebra_simps)
qed

lemma foldl_pixelStep:
  assumes "\<forall>x\<in>set xs. \<exists>l. pixelLuminance img x y = Num l \<and> lo \<le> l \<and> l \<le> hi"
  shows "\<exists>t'. foldl (pixelStep img y) (Num t, c) xs = (Num t', c + length xs)
            \<and> t + lo * real (length xs) \<le> t' \<and> t' \<le> t + hi * real (length xs)"
  using assms
proof (induction xs arbitrary: t c)
  case Nil
  show ?case by simp
next
  case (Cons x xs)
  obtain l where l: "pixelLuminance img x y = Num l" "lo \<le> l" "l \<le> hi"
    using Cons.prems by auto
  have step: "pixelStep img y (Num t, c) x = (Num (t + l), Suc c)"
    using l(1) by (simp add: pixelStep_def)
  have "\<forall>x\<in>set xs. \<exists>l. pixelLuminance img x y = Num l \<and> lo \<le> l \<and> l \<le> hi"
    using Cons.prems by simp
  from Cons.IH [OF this, of "t + l" "Suc c"]
  obtain t' where t': "foldl (pixelStep img y) (Num (t + l), Suc c) xs = (Num t', Suc c + length xs)"
    "t + l + lo * real (length xs) \<le> t'" "t' \<le> t + l + hi * real (length xs)"
    by blast
  have "foldl (pixelStep img y) (Num t, c) (x # xs) = (Num t', c + length (x # xs))"
    using step t'(1) by simp
  moreover have "t + lo * real (length (x # xs)) \<le> t'"
    using t'(2) l(2) by (simp add: algebra_simps)
  moreover have "t' \<le> t + hi * real (length (x # xs))"
    using t'(3) l(3) by (simp add: algebra_simps)
  ultimately show ?case by blast
qed

lemma rowLoop_bounds:
  assumes "\<forall>x<width img. \<exists>l. pixelLuminance img x y = Num l \<and> lo \<le> l \<and> l \<le> hi"
  shows "\<exists>t'. rowLoop img (Num t, c) y = (Num t', c + width img)
            \<and> t + lo * real (width img) \<le> t' \<and> t' \<le> t + hi * real (width img)"
  using foldl_pixelStep [of "[0..<width img]" img y lo hi t c] assms
  by (simp add: rowLoop_def)

lemma foldl_rowLoop:
  assumes "\<forall>y\<in>set ys. \<forall>x<width img.
             \<exists>l. pixelLuminance img x y = Num l \<and> lo \<le> l \<and> l \<le> hi"
  shows "\<exists>t'. foldl (rowLoop img) (Num t, c) ys = (Num t', c + width img * length ys)
            \<and> t + lo * real (width img * length ys) \<le> t'
            \<and> t' \<le> t + hi * real (width img * length ys)"
  using assms
proof (induction ys arbitrary: t c)
  case Nil
  show ?case by simp
next
  case (Cons y ys)
  have "\<forall>x<width img. \<exists>l. pixelLuminance img x y = Num l \<and> lo \<le> l \<and> l \<le> hi"
    using Cons.prems by simp
  from rowLoop_bounds [OF this, of t c]
  obtain t1 where t1: "rowLoop img (Num t, c) y = (Num t1, c + width img)"
    "t + lo * real (width img) \<le> t1" "t1 \<le> t + hi * real (width img)"
    by blast
  have "\<forall>y\<in>set ys. \<forall>x<width img.
          \<exists>l. pixelLuminance img x y = Num l \<and> lo \<le> l \<and> l \<le> hi"
    using Cons.prems by simp
  from Cons.IH [OF this, of t1 "c + width img"]
  obtain t' where t': "foldl (rowLoop img) (Num t1, c + width img) ys
        = (Num t', c + width img + width img * length ys)"
    "t1 + lo * real (width img * length ys) \<le> t'"
    "t' \<le> t1 + hi * real (width img * length ys)"
    by blast
  have "foldl (rowLoop img) (Num t, c) (y # ys) = (Num t', c + width img * length (y # ys))"
    using t1(1) t'(1) by simp
  moreover have "t + lo * real (width img * length (y # ys)) \<le> t'"
    using t1(2) t'(2) by (simp add: algebra_simps)
  moreover have "t' \<le> t + hi * real (width img * length (y # ys))"
    using t1(3) t'(3) by (simp add: algebra_simps)
  ultimately show ?case by blast
qed

lemma averageLuminance_bounds:
  assumes "0 < width img" "0 < height img"
    and "\<forall>y<height img. \<forall>x<width img.
           \<exists>l. pixelLuminance img x y = Num l \<and> lo \<le> l \<and> l \<le> hi"
  shows "\<exists>L. averageLuminance img = Num L \<and> lo \<le> L \<and> L \<le> hi"
proof -
  let ?n = "width img * height img"
  have "\<forall>y\<in>set [0..<height img]. \<forall>x<width img.
          \<exists>l. pixelLuminance img x y = Num l \<and> lo \<le> l \<and> l \<le> hi"
    using assms(3) by simp
  from foldl_rowLoop [OF this, of 0 0]
  obtain t where t: "foldl (rowLoop img) (Num 0, 0) [0..<height img] = (Num t, ?n)"
    "lo * real ?n \<le> t" "t \<le> hi * real ?n"
    by auto
  have n: "0 < real ?n" using assms(1,2) by simp
  have "averageLuminance img = Num (t / real ?n)"
    using t(1) assms(1,2) by (simp add: averageLuminance_def)
  moreover have "lo \<le> t / real ?n" using t(2) n by (simp add: pos_le_divide_eq)
  moreover have "t / real ?n \<le> hi" using t(3) n by (simp add: pos_divide_le_eq)
  ultimately show ?thesis by blast
qed

lemma averageLuminance_Num:
  assumes "wellFormed img"
  shows "\<exists>L. averageLuminance img = Num L \<and> 0 \<le> L \<and> L \<le> 6/10"
proof -
  have wh: "0 < width img" "0 < height img" using assms by (simp_all add: wellFormed_def)
  have "\<forall>y<height img. \<forall>x<width img.
          \<exists>l. pixelLuminance img x y = Num l \<and> 0 \<le> l \<and> l \<le> 6/10"
    using pixelLuminance_range [OF assms] by blast
  from averageLuminance_bounds [OF wh this] show ?thesis .
qed

lemma pixelLuminance_spec:
  assumes "wellFormed img" "x < width img" "y < height img"
  shows "pixelLuminance img x y = Num (spec_luminance img x y)"
proof -
  let ?i = "(y * width img + x) * 4"
  have "y * width img + x < width img * height img"
    using assms(2,3) by (rule pixel_index_bound)
  then have len: "?i + 2 < length (data img)"
    using assms(1) by (simp add: wellFormed_def)
  then have "channel (data img) ?i = Num (real (data img ! ?i) / 255)"
    "channel (data img) (?i + 1) = Num (real (data img ! (?i + 1)) / 255)"
    "channel (data img) (?i + 2) = Num (real (data img ! (?i + 2)) / 255)"
    by (simp_all add: channel_def)
  then show ?thesis
    by (simp add: pixelLuminance_def spec_luminance_def spec_weight_def Let_def)
qed

lemma foldl_pixelStep_sum:
  assumes "\<forall>x<n. pixelLuminance img x y = Num (f x)"
  shows "foldl (pixelStep img y) (Num t, c) [0..<n] = (Num (t + (\<Sum>x<n. f x)), c + n)"
  using assms
proof (induction n)
  case 0
  show ?case by simp
next
  case (Suc n)
  have ih: "foldl (pixelStep img y) (Num t, c) [0..<n] = (Num (t + (\<Sum>x<n. f x)), c + n)"
    using Suc by simp
  have px: "pixelLuminance img n y = Num (f n)" using Suc.prems by simp
  have "foldl (pixelStep img y) (Num t, c) [0..<Suc n]
      = pixelStep img y (foldl (pixelStep img y) (Num t, c) [0..<n]) n"
    by simp
  also have "\<dots> = pixelStep img y (Num (t + (\<Sum>x<n. f x)), c + n) n"
    by (simp only: ih)
  also have "\<dots> = (Num (t + (\<Sum>x<Suc n. f x)), c + Suc n)"
    using px by (simp add: pixelStep_def)
  finally show ?case .
qed

lemma foldl_rowLoop_sum:
  assumes "\<forall>y<m. \<forall>x<width img. pixelLuminance img x y = Num (f x y)"
  shows "foldl (rowLoop img) (Num t, c) [0..<m]
       = (Num (t + (\<Sum>y<m. \<Sum>x<width img. f x y)), c + width img * m)"
  using assms
proof (induction m)
  case 0
  show ?case by simp
next
  case (Suc m)
  have ih: "foldl (rowLoop img) (Num t, c) [0..<m]
       = (Num (t + (\<Sum>y<m. \<Sum>x<width img. f x y)), c + width img * m)"
    using Suc by simp
  have row: "\<forall>x<width img. pixelLuminance img x m = Num (f x m)" using Suc.prems by simp
  have "foldl (rowLoop img) (Num t, c) [0..<Suc m]
      = rowLoop img (foldl (rowLoop img) (Num t, c) [0..<m]) m"
    by simp
  also have "\<dots> = rowLoop img (Num (t + (\<Sum>y<m. \<Sum>x<width img. f x y)), c + width img * m) m"
    by (simp only: ih)
  also have "\<dots> = (Num (t + (\<Sum>y<m. \<Sum>x<width img. f x y) + (\<Sum>x<width img. f x m)),
                     c + width img * m + width img)"
    unfolding rowLoop_def by (rule foldl_pixelStep_sum [OF row])
  also have "\<dots> = (Num (t + (\<Sum>y<Suc m. \<Sum>x<width img. f x y)), c + width img * Suc m)"
    by (simp add: algebra_simps)
  finally show ?case .
qed

lemma averageLuminance_mean:
  assumes "wellFormed img"
  shows "averageLuminance img = Num (spec_meanLuminance img)"
proof -
  have wh: "0 < width img" "0 < height img" using assms by (simp_all add: wellFormed_def)
  have "\<forall>y<height img. \<forall>x<width img.
          pixelLuminance img x y = Num (spec_luminance img x y)"
    using pixelLuminance_spec [OF assms] by blast
  from foldl_rowLoop_sum [OF this, of 0 0]
  have "foldl (rowLoop img) (Num 0, 0) [0..<height img]
      = (Num (\<Sum>y<height img. \<Sum>x<width img. spec_luminance img x y),
         width img * height img)"
    by simp
  then show ?thesis using wh by (simp add: averageLuminance_def spec_meanLuminance_def)
qed

lemma spec_luminance_uniform:
  assumes "wellFormed img" "uniformRGB img c" "x < width img" "y < height img"
  shows "spec_luminance img x y = linearRGB (real c / 255) * spec_weight img x y"
  using pixelLuminance_uniform [OF assms] pixelLuminance_spec [OF assms(1,3,4)]
  by (simp add: spec_weight_def)

text \<open>
  C5, amended. For every frame with at least one pixel whose samples lie in [0, 255] the
  sampler returns the mean, over all pixels, of the weighted luminances: a number in
  [0, 1], and in fact at most the centre weight 0.6; a black frame gives 0; a white frame
  gives the mean over its pixels of the weights 0.6 (centre) and 0.4 (surround), which is
  at least 0.4, because every luminance is multiplied by its weight and the sum is
  divided by the number of pixels.
\<close>

theorem averageLuminance_weighted_mean:
  assumes "wellFormed img"
  shows "averageLuminance img = Num (spec_meanLuminance img)
       \<and> 0 \<le> spec_meanLuminance img \<and> spec_meanLuminance img \<le> 1
       \<and> spec_meanLuminance img \<le> centerWeight
       \<and> (uniformRGB img 0 \<longrightarrow> spec_meanLuminance img = 0)
       \<and> (uniformRGB img 255 \<longrightarrow>
            spec_meanLuminance img
              = (\<Sum>y<height img. \<Sum>x<width img. spec_weight img x y)
                  / real (width img * height img)
            \<and> 1 - centerWeight \<le> spec_meanLuminance img)"
proof -
  have mean: "averageLuminance img = Num (spec_meanLuminance img)"
    using assms by (rule averageLuminance_mean)
  obtain L where L: "averageLuminance img = Num L" "0 \<le> L" "L \<le> 6/10"
    using averageLuminance_Num [OF assms] by blast
  have range: "0 \<le> spec_meanLuminance img" "spec_meanLuminance img \<le> 6/10"
    using mean L by simp_all
  have black: "spec_meanLuminance img = 0" if u: "uniformRGB img 0"
  proof -
    have "(\<Sum>y<height img. \<Sum>x<width img. spec_luminance img x y) = 0"
      using spec_luminance_uniform [OF assms u] by (simp add: linearRGB_zero)
    then show ?thesis by (simp add: spec_meanLuminance_def)
  qed
  have white: "spec_meanLuminance img
              = (\<Sum>y<height img. \<Sum>x<width img. spec_weight img x y)
                  / real (width img * height img)" if u: "uniformRGB img 255"
  proof -
    have "(\<Sum>y<height img. \<Sum>x<width img. spec_luminance img x y)
        = (\<Sum>y<height img. \<Sum>x<width img. spec_weight img x y)"
      using spec_luminance_uniform [OF assms u] by (simp add: linearRGB_one)
    then show ?thesis by (simp add: spec_meanLuminance_def)
  qed
  have above: "4/10 \<le> spec_meanLuminance img" if u: "uniformRGB img 255"
  proof -
    have wh: "0 < width img" "0 < height img" using assms by (simp_all add: wellFormed_def)
    have "\<forall>y<height img. \<forall>x<width img.
            \<exists>l. pixelLuminance img x y = Num l \<and> 4/10 \<le> l \<and> l \<le> 6/10"
      using pixelLuminance_uniform [OF assms u] by (simp add: linearRGB_one centerWeight_def)
    from averageLuminance_bounds [OF wh this] show ?thesis using mean by simp
  qed
  show ?thesis using mean range black white above by (simp add: centerWeight_def)
qed


lemma all_less_Suc: "(\<forall>p<Suc n. P p) = (P n \<and> (\<forall>p<n. P p))"
  by (auto simp add: less_Suc_eq)

theorem averageLuminance_weighted_mean_witness:
  "wellFormed whiteRow \<and> uniformRGB whiteRow 255
   \<and> averageLuminance whiteRow = Num (8/15)
   \<and> (\<Sum>y<height whiteRow. \<Sum>x<width whiteRow. spec_weight whiteRow x y)
         / real (width whiteRow * height whiteRow) = 8/15
   \<and> wellFormed blackRow \<and> uniformRGB blackRow 0
   \<and> averageLuminance blackRow = Num 0"
proof -
  have w: "wellFormed whiteRow" "uniformRGB whiteRow 255"
    by (simp_all add: whiteRow_def wellFormed_def uniformRGB_def eval_nat_numeral all_less_Suc)
  have b: "wellFormed blackRow" "uniformRGB blackRow 0"
    by (simp_all add: blackRow_def wellFormed_def uniformRGB_def eval_nat_numeral all_less_Suc)
  have ev: "averageLuminance whiteRow = Num (8/15)"
    by (simp add: whiteRow_def averageLuminance_def rowLoop_def pixelStep_def pixelLuminance_def
        channel_def isCenter_def linearRGB_def centerWeight_def upt_rec)
  have "spec_meanLuminance whiteRow = 8/15"
    using averageLuminance_weighted_mean [OF w(1)] ev by simp
  then have "(\<Sum>y<height whiteRow. \<Sum>x<width whiteRow. spec_weight whiteRow x y)
         / real (width whiteRow * height whiteRow) = 8/15"
    using averageLuminance_weighted_mean [OF w(1)] w(2) by simp
  moreover have "averageLuminance blackRow = Num 0"
    using averageLuminance_weighted_mean [OF b(1)] b(2) by simp
  ultimately show ?thesis using w b ev by simp
qed

text \<open>
  C5, as the specification states it, expects a luminance of about 1 for a white frame.
  A white frame of one pixel gives 0.6: the pixel lies in the centre region.
\<close>

theorem averageLuminance_white_pixel:
  "wellFormed \<lparr>width = 1, height = 1, data = [255, 255, 255, 255]\<rparr>
   \<and> uniformRGB \<lparr>width = 1, height = 1, data = [255, 255, 255, 255]\<rparr> 255
   \<and> averageLuminance \<lparr>width = 1, height = 1, data = [255, 255, 255, 255]\<rparr>
       = Num (3/5)"
  by (simp add: wellFormed_def uniformRGB_def averageLuminance_def rowLoop_def pixelStep_def
      pixelLuminance_def channel_def isCenter_def linearRGB_def centerWeight_def)

subsection \<open>The watcher of the ISO and of the compensation\<close>

lemma singleMeasurementV_Num:
  assumes "averageLuminance img = Num L"
  shows "singleMeasurementV img = Num (log 2 (max 0.001 (min 0.95 L) * 100 * (12.5 * 1.2)))"
  using assms by (simp add: singleMeasurementV_def Let_def)

lemma foldl_sampleStep:
  assumes "\<forall>i<n. singleMeasurementV (frames i) = Num (e i)"
  shows "foldl (sampleStep frames) (Num t) [0..<n] = Num (t + (\<Sum>i<n. e i))"
  using assms
proof (induction n)
  case 0
  show ?case by simp
next
  case (Suc n)
  have ih: "foldl (sampleStep frames) (Num t) [0..<n] = Num (t + (\<Sum>i<n. e i))"
    using Suc by simp
  have last: "singleMeasurementV (frames n) = Num (e n)" using Suc.prems by simp
  have "foldl (sampleStep frames) (Num t) [0..<Suc n]
      = sampleStep frames (foldl (sampleStep frames) (Num t) [0..<n]) n"
    by simp
  also have "\<dots> = sampleStep frames (Num (t + (\<Sum>i<n. e i))) n"
    by (simp only: ih)
  also have "\<dots> = Num (t + (\<Sum>i<Suc n. e i))"
    using last by (simp add: sampleStep_def)
  finally show ?case .
qed

lemma measureEV_mean:
  assumes "\<forall>i<10. singleMeasurementV (frames i) = Num (e i)"
  shows "measureEV frames = Num ((\<Sum>i<10. e i) / 10)"
  using foldl_sampleStep [of 10 frames e 0] assms by (simp add: measureEV_def)

lemma measureEV_same_frame:
  assumes "singleMeasurementV img = Num e"
  shows "measureEV (\<lambda>i. img) = Num e"
  using measureEV_mean [of "\<lambda>i. img" "\<lambda>i. e"] assms by simp

text \<open>
  C8, amended. A change of the ISO or of the exposure compensation runs, when the shutter
  speed is valid (above 0), the whole of \<^verbatim>\<open>analyzeBrightness\<close>: ten frames are
  sampled anew, the exposure value is the mean of their ten samples, and the driven
  parameter is solved from that new exposure value; no stored exposure value is read.
  With the shutter speed at 0 the watcher changes nothing.
\<close>

theorem watchIsoExposureCompensation_remeasures:
  assumes "isStreaming s" "\<forall>i<10. wellFormed (frames i)" "0 < isoV s"
  shows "\<exists>Ls. (\<forall>i<10. averageLuminance (frames i) = Num (Ls i))
     \<and> watchIsoExposureCompensation (Some frames) True s =
        (if 0 < shutterSpeedV s then
           map_option (\<lambda>s2. s2\<lparr>isMeasuring := False\<rparr>)
             (solveExposure
                (Num ((\<Sum>i<10. log 2 (max 0.001 (min 0.95 (Ls i)) * 100 * (12.5 * 1.2))) / 10))
                (s\<lparr>showEvSelector := False, showIsoSelector := False,
                   showShutterSelector := False, showApertureSelector := False,
                   isMeasuring := True\<rparr>))
         else Some s)"
proof -
  have "\<forall>i. \<exists>L. i < 10 \<longrightarrow> averageLuminance (frames i) = Num L"
    using averageLuminance_Num assms(2) by blast
  then obtain Ls where Ls: "\<forall>i<10. averageLuminance (frames i) = Num (Ls i)"
    by metis
  have "\<forall>i<10. singleMeasurementV (frames i)
          = Num (log 2 (max 0.001 (min 0.95 (Ls i)) * 100 * (12.5 * 1.2)))"
    using Ls singleMeasurementV_Num by blast
  from measureEV_mean [OF this]
  have "measureEV frames
      = Num ((\<Sum>i<10. log 2 (max 0.001 (min 0.95 (Ls i)) * 100 * (12.5 * 1.2))) / 10)" .
  then have "watchIsoExposureCompensation (Some frames) True s =
        (if 0 < shutterSpeedV s then
           map_option (\<lambda>s2. s2\<lparr>isMeasuring := False\<rparr>)
             (solveExposure
                (Num ((\<Sum>i<10. log 2 (max 0.001 (min 0.95 (Ls i)) * 100 * (12.5 * 1.2))) / 10))
                (s\<lparr>showEvSelector := False, showIsoSelector := False,
                   showShutterSelector := False, showApertureSelector := False,
                   isMeasuring := True\<rparr>))
         else Some s)"
    using assms(1) by (simp add: watchIsoExposureCompensation_def analyzeBrightness_def Let_def)
  then show ?thesis using Ls by blast
qed

lemma averageLuminance_whitePixel: "averageLuminance whitePixel = Num (3/5)"
  by (simp add: whitePixel_def averageLuminance_def rowLoop_def pixelStep_def
      pixelLuminance_def channel_def isCenter_def linearRGB_def centerWeight_def)

lemma averageLuminance_blackPixel: "averageLuminance blackPixel = Num 0"
  by (simp add: blackPixel_def averageLuminance_def rowLoop_def pixelStep_def
      pixelLuminance_def channel_def isCenter_def linearRGB_def centerWeight_def)

lemma measureEV_whitePixel: "measureEV (\<lambda>i. whitePixel) = Num (log 2 900)"
  using measureEV_same_frame [OF singleMeasurementV_Num [OF averageLuminance_whitePixel]]
  by simp

lemma measureEV_blackPixel: "measureEV (\<lambda>i. blackPixel) = Num (log 2 (3/2))"
  using measureEV_same_frame [OF singleMeasurementV_Num [OF averageLuminance_blackPixel]]
  by simp

lemma watch_whitePixel:
  "watchIsoExposureCompensation (Some (\<lambda>i. whitePixel)) True meteredView
   = Some (meteredView\<lparr>shutterSpeedV := 1/500\<rparr>)"
  by (simp add: watchIsoExposureCompensation_def analyzeBrightness_def measureEV_whitePixel
      solveExposure_def powr_minus getStandardShutterSpeed_ratio meteredView_def
      power2_eq_square)

lemma watch_blackPixel:
  "watchIsoExposureCompensation (Some (\<lambda>i. blackPixel)) True meteredView
   = Some (meteredView\<lparr>shutterSpeedV := 1\<rparr>)"
  by (simp add: watchIsoExposureCompensation_def analyzeBrightness_def measureEV_blackPixel
      solveExposure_def powr_minus getStandardShutterSpeed_ratio meteredView_def
      power2_eq_square)


theorem watchIsoExposureCompensation_remeasures_witness:
  "isStreaming meteredView \<and> wellFormed whitePixel \<and> 0 < isoV meteredView
   \<and> 0 < shutterSpeedV meteredView
   \<and> averageLuminance whitePixel = Num (3/5)
   \<and> watchIsoExposureCompensation (Some (\<lambda>i. whitePixel)) True meteredView
       = Some (meteredView\<lparr>shutterSpeedV := 1/500\<rparr>)"
proof -
  have "isStreaming meteredView" "0 < shutterSpeedV meteredView" "0 < isoV meteredView"
    by (simp_all add: meteredView_def)
  moreover have "wellFormed whitePixel" by (simp add: whitePixel_def wellFormed_def)
  ultimately show ?thesis
    using watchIsoExposureCompensation_remeasures [of meteredView "\<lambda>i. whitePixel"]
    by (simp add: watch_whitePixel averageLuminance_whitePixel)
qed

text \<open>
  C8, as the specification states it, lets a change of the ISO solve from a stored
  exposure value without a new sample. From one and the same state, the change of the ISO
  to 200 gives one shutter speed when the video shows a black frame and another when it
  shows a white one: the frame is sampled anew.
\<close>

theorem handleIsoSelect_samples_new_frame:
  "handleIsoSelect 200 (Some (\<lambda>i. blackPixel)) True meteredView
     = Some (meteredView\<lparr>isoV := 200, shutterSpeedV := 1/2\<rparr>)
   \<and> handleIsoSelect 200 (Some (\<lambda>i. whitePixel)) True meteredView
     = Some (meteredView\<lparr>isoV := 200, shutterSpeedV := 1/1000\<rparr>)
   \<and> handleIsoSelect 200 (Some (\<lambda>i. blackPixel)) True meteredView
     \<noteq> handleIsoSelect 200 (Some (\<lambda>i. whitePixel)) True meteredView"
  by (simp add: handleIsoSelect_def watchIsoExposureCompensation_def analyzeBrightness_def
      measureEV_whitePixel measureEV_blackPixel solveExposure_def powr_minus
      getStandardShutterSpeed_ratio meteredView_def power2_eq_square)

subsection \<open>Shutter priority\<close>

lemma standardApertureValues_range:
  assumes "t \<in> set standardApertureValues"
  shows "1 \<le> t \<and> t \<le> 22"
  using assms by (auto simp add: standardApertureValues_def)

lemma apertureValues_range:
  assumes "t \<in> set apertureValues"
  shows "1 \<le> t \<and> t \<le> 22"
  using assms by (auto simp add: apertureValues_def)

lemma getStandardApertureValue_closest:
  "\<exists>r. getStandardApertureValue v = Some r \<and> r \<in> set standardApertureValues
       \<and> (\<forall>t\<in>set standardApertureValues. \<bar>r - v\<bar> \<le> \<bar>t - v\<bar>)"
proof -
  let ?d = "\<lambda>c. \<bar>c - v\<bar>"
  let ?f = "\<lambda>prev curr. if ?d curr < ?d prev then curr else prev"
  obtain x xs where tab: "standardApertureValues = x # xs"
    unfolding standardApertureValues_def by blast
  have res: "getStandardApertureValue v = Some (foldl ?f x xs)"
    by (simp only: getStandardApertureValue_def tab reduce.simps)
  have "foldl ?f x xs \<in> set (x # xs)"
    by (rule foldl_closest_mem [where d = ?d])
  moreover have "\<forall>t\<in>set (x # xs). ?d (foldl ?f x xs) \<le> ?d t"
    using foldl_closest_min [where d = ?d] by blast
  ultimately show ?thesis using res tab by simp
qed

lemma getStandardAperture_closest:
  "\<exists>r. getStandardAperture v = Some r \<and> r \<in> set apertureValues
       \<and> (\<forall>t\<in>set apertureValues. \<bar>log 2 r - log 2 v\<bar> \<le> \<bar>log 2 t - log 2 v\<bar>)"
proof -
  let ?d = "\<lambda>c. \<bar>log 2 c - log 2 v\<bar>"
  let ?f = "\<lambda>prev curr. if ?d curr < ?d prev then curr else prev"
  obtain x xs where tab: "apertureValues = x # xs"
    unfolding apertureValues_def by blast
  have res: "getStandardAperture v = Some (foldl ?f x xs)"
    by (simp only: getStandardAperture_def tab reduce.simps)
  have "foldl ?f x xs \<in> set (x # xs)"
    by (rule foldl_closest_mem [where d = ?d])
  moreover have "\<forall>t\<in>set (x # xs). ?d (foldl ?f x xs) \<le> ?d t"
    using foldl_closest_min [where d = ?d] by blast
  ultimately show ?thesis using res tab by simp
qed

lemma updateExposureParams_shutter_branch:
  assumes "typeFlag s = Shutter" "0 < shutterSpeed s"
  shows "let raw = spec_apertureRaw ev (exposureCompensation s) (iso s) (shutterSpeed s) in
         \<exists>r. updateExposureParams ev s = Some (s\<lparr>currentEV := ev, aperture := r\<rparr>)
          \<and> (r = 0 \<longleftrightarrow> raw < 1 \<or> 22 < raw)
          \<and> (if raw < 1 \<or> 22 < raw then r = 0
              else getStandardApertureValue raw = Some r \<and> r \<in> set standardApertureValues
                \<and> (\<forall>t\<in>set standardApertureValues. \<bar>r - raw\<bar> \<le> \<bar>t - raw\<bar>))"
proof -
  define raw where "raw = spec_apertureRaw ev (exposureCompensation s) (iso s) (shutterSpeed s)"
  have raw: "sqrt (shutterSpeed s * (100 / iso s) * 2 powr (ev - exposureCompensation s)) = raw"
    by (simp add: raw_def spec_apertureRaw_def)
  show ?thesis
  proof (cases "raw < 1 \<or> 22 < raw")
    case True
    then have "updateExposureParams ev s = Some (s\<lparr>currentEV := ev, aperture := 0\<rparr>)"
      using assms raw by (simp add: updateExposureParams_def Let_def)
    then show ?thesis using True unfolding Let_def raw_def [symmetric] by simp
  next
    case False
    obtain r where r: "getStandardApertureValue raw = Some r" "r \<in> set standardApertureValues"
      "\<forall>t\<in>set standardApertureValues. \<bar>r - raw\<bar> \<le> \<bar>t - raw\<bar>"
      using getStandardApertureValue_closest [of raw] by blast
    have "updateExposureParams ev s = Some (s\<lparr>currentEV := ev, aperture := r\<rparr>)"
      using assms raw False r(1) by (simp add: updateExposureParams_def Let_def)
    moreover have "r \<noteq> 0" using standardApertureValues_range [OF r(2)] by simp
    ultimately show ?thesis using False r unfolding Let_def raw_def [symmetric] by auto
  qed
qed

lemma solveExposure_shutter_branch:
  assumes "typeFlagV u = Shutter" "0 < shutterSpeedV u"
  shows "let raw = spec_apertureRaw ev (exposureCompensationV u) (isoV u) (shutterSpeedV u) in
         \<exists>r. solveExposure (Num ev) u = Some (u\<lparr>apertureV := r\<rparr>)
          \<and> (r = 0 \<longleftrightarrow> raw < 1 \<or> 22 < raw)
          \<and> (if raw < 1 \<or> 22 < raw then r = 0
              else getStandardAperture raw = Some r \<and> r \<in> set apertureValues
                \<and> (\<forall>t\<in>set apertureValues.
                      \<bar>log 2 r - log 2 raw\<bar> \<le> \<bar>log 2 t - log 2 raw\<bar>))"
proof -
  define raw where "raw = spec_apertureRaw ev (exposureCompensationV u) (isoV u) (shutterSpeedV u)"
  have raw: "sqrt (shutterSpeedV u * (100 / isoV u) * 2 powr (ev - exposureCompensationV u)) = raw"
    by (simp add: raw_def spec_apertureRaw_def)
  show ?thesis
  proof (cases "raw < 1 \<or> 22 < raw")
    case True
    then have "solveExposure (Num ev) u = Some (u\<lparr>apertureV := 0\<rparr>)"
      using assms raw by (simp add: solveExposure_def Let_def)
    then show ?thesis using True unfolding Let_def raw_def [symmetric] by simp
  next
    case False
    obtain r where r: "getStandardAperture raw = Some r" "r \<in> set apertureValues"
      "\<forall>t\<in>set apertureValues. \<bar>log 2 r - log 2 raw\<bar> \<le> \<bar>log 2 t - log 2 raw\<bar>"
      using getStandardAperture_closest [of raw] by blast
    have "solveExposure (Num ev) u = Some (u\<lparr>apertureV := r\<rparr>)"
      using assms raw False r(1) by (simp add: solveExposure_def Let_def)
    moreover have "r \<noteq> 0" using apertureValues_range [OF r(2)] by simp
    ultimately show ?thesis using False r unfolding Let_def raw_def [symmetric] by auto
  qed
qed

lemma getStandardAperture_ratio:
  assumes "0 < v"
  shows "getStandardAperture v =
     Some (foldl (\<lambda>prev curr.
           if max (curr / v) (v / curr) < max (prev / v) (v / prev) then curr else prev) 1.0
     [1.2, 1.4, 1.8, 2, 2.8, 4, 5.6, 8, 11, 16, 22])"
proof -
  have "foldl (\<lambda>prev curr.
           if \<bar>log 2 curr - log 2 v\<bar> < \<bar>log 2 prev - log 2 v\<bar> then curr else prev) 1.0
     [1.2, 1.4, 1.8, 2, 2.8, 4, 5.6, 8, 11, 16, 22]
    = foldl (\<lambda>prev curr.
           if max (curr / v) (v / curr) < max (prev / v) (v / prev) then curr else prev) 1.0
     [1.2, 1.4, 1.8, 2, 2.8, 4, 5.6, 8, 11, 16, 22]"
    by (rule foldl_logdist_ratio [OF assms]) simp_all
  then show ?thesis
    by (simp only: getStandardAperture_def apertureValues_def reduce.simps)
qed

lemma sqrt_361_16: "sqrt (361/16) = 19/4"
  using real_sqrt_abs [of "19/4"] by (simp add: power2_eq_square)

text \<open>
  C2 asks the solver in shutter priority for the raw aperture of the specification, the
  sentinel 0 outside [1, 22] and otherwise the snap to the nearest standard aperture,
  which the specification measures by the distance between the logarithms. Both solvers
  compute the raw value and check the range (the two lemmas above). The composable then
  snaps by the difference of the values: with the shutter speed 1/4 held, ISO 100, no
  compensation and the exposure value \<open>log 2 (361/4)\<close>, about 6.5, the raw aperture
  is 4.75 and \<^term>\<open>updateExposureParams\<close> returns 4, although the entry 5.6 is closer
  in the logarithm; the solver of the view returns 5.6 for the same input.
\<close>

theorem shutter_priority_snap_not_log_nearest:
  "spec_apertureRaw (log 2 (361/4)) 0 100 (1/4) = 4.75
   \<and> updateExposureParams (log 2 (361/4)) shutterHeld
       = Some (shutterHeld\<lparr>currentEV := log 2 (361/4), aperture := 4.0\<rparr>)
   \<and> 5.6 \<in> set standardApertureValues
   \<and> \<bar>log 2 5.6 - log 2 4.75\<bar> < \<bar>log 2 4.0 - log 2 4.75\<bar>
   \<and> solveExposure (Num (log 2 (361/4))) shutterHeldView
       = Some (shutterHeldView\<lparr>apertureV := 5.6\<rparr>)"
proof -
  have raw: "spec_apertureRaw (log 2 (361/4)) 0 100 (1/4) = 19/4"
    by (simp add: spec_apertureRaw_def sqrt_361_16)
  have lin: "getStandardApertureValue (19/4) = Some 4"
    by (simp add: getStandardApertureValue_def standardApertureValues_def)
  have lg: "getStandardAperture (19/4) = Some (56/10)"
    by (simp add: getStandardAperture_ratio)
  have closer: "\<bar>log 2 (56/10) - log 2 (19/4)\<bar> < \<bar>log 2 4 - log 2 (19/4 :: real)\<bar>"
    by (subst logdist_less_iff) simp_all
  have c: "updateExposureParams (log 2 (361/4)) shutterHeld
       = Some (shutterHeld\<lparr>currentEV := log 2 (361/4), aperture := 4\<rparr>)"
    by (simp add: updateExposureParams_def shutterHeld_def sqrt_361_16 lin)
  have v: "solveExposure (Num (log 2 (361/4))) shutterHeldView
       = Some (shutterHeldView\<lparr>apertureV := 56/10\<rparr>)"
    by (simp add: solveExposure_def shutterHeldView_def meteredView_def sqrt_361_16 lg)
  have "(56/10 :: real) \<in> set standardApertureValues"
    by (simp add: standardApertureValues_def)
  then show ?thesis using raw closer c v by simp
qed

subsection \<open>The first closest entry, and entries of the tables\<close>

text \<open>
  The reduction returns the first entry at the least distance: an entry that is strictly
  closer than all entries before it and at least as close as all entries after it.
\<close>

lemma foldl_closest_keep:
  fixes d :: "'a \<Rightarrow> real"
  assumes "\<forall>z\<in>set zs. d a \<le> d z"
  shows "foldl (\<lambda>prev curr. if d curr < d prev then curr else prev) a zs = a"
  using assms by (induction zs) simp_all

lemma foldl_closest_first:
  fixes d :: "'a \<Rightarrow> real"
  assumes "x # xs = ys @ r # zs" "\<forall>y\<in>set ys. d r < d y" "\<forall>z\<in>set zs. d r \<le> d z"
  shows "foldl (\<lambda>prev curr. if d curr < d prev then curr else prev) x xs = r"
proof (cases ys)
  case Nil
  then have "x = r" "xs = zs" using assms(1) by simp_all
  then show ?thesis using foldl_closest_keep [OF assms(3)] by simp
next
  case (Cons y ys')
  let ?f = "\<lambda>prev curr. if d curr < d prev then curr else prev"
  have x: "x = y" and xs: "xs = ys' @ r # zs" using assms(1) Cons by simp_all
  have "foldl ?f x ys' \<in> set (x # ys')" by (rule foldl_closest_mem)
  then have "d r < d (foldl ?f x ys')" using assms(2) Cons x by auto
  then have "foldl ?f x (ys' @ [r]) = r" by simp
  then have "foldl ?f x xs = foldl ?f r zs" unfolding xs by (simp del: foldl_Cons add: foldl_append [of ?f x "ys' @ [r]" zs, simplified])
  then show ?thesis using foldl_closest_keep [OF assms(3)] by simp
qed


lemma standardShutterSpeeds_range:
  assumes "t \<in> set standardShutterSpeeds"
  shows "1/8000 \<le> t \<and> t \<le> 30"
  using assms by (auto simp add: standardShutterSpeeds_def)




subsection \<open>Round trip between the two modes\<close>













text \<open>
  Inside the scale the snapped shutter speed can move the aperture to a neighbour as
  well: at ISO 100 the aperture 2 with the raw shutter value 1.4 (snapped to 1 second)
  comes back as 1.4.
\<close>

lemma sqrt_20_7: "169/100 < sqrt (20/7)" "sqrt (20/7) < 170/100"
  by (rule real_less_rsqrt, simp add: power2_eq_square)
     (rule real_less_lsqrt, simp_all add: power2_eq_square)

lemma round_trip_moves_aperture_2:
  "updateExposureParams (log 2 (20/7)) (apertureHeld\<lparr>aperture := 2\<rparr>)
     = Some (apertureHeld\<lparr>aperture := 2, currentEV := log 2 (20/7), shutterSpeed := 1\<rparr>)
   \<and> updateExposureParams (log 2 (20/7)) (toggleMeteringMode
       (apertureHeld\<lparr>aperture := 2, currentEV := log 2 (20/7), shutterSpeed := 1\<rparr>))
     = Some (apertureHeld\<lparr>aperture := 1.4, currentEV := log 2 (20/7), shutterSpeed := 1,
          typeFlag := Shutter\<rparr>)"
proof -
  have snap: "getStandardApertureValue (sqrt (20/7)) = Some 1.4"
    using sqrt_20_7 by (simp add: getStandardApertureValue_def standardApertureValues_def abs_if)
  show ?thesis
    using sqrt_20_7 snap
    by (simp add: apertureHeld_def updateExposureParams_def toggleMeteringMode_def
        powr_minus getStandardShutterSpeed_ratio)
qed

text \<open>
  Away from ISO 100 the way back differs by more: the aperture formula of the solver
  scales by \<open>100 / ISO\<close> as the shutter formula does, so that at ISO 400 the aperture
  8 comes back as 2.
\<close>

lemma sqrt_64_15: "2 < sqrt (64/15)" "sqrt (64/15) < 21/10"
  by (rule real_less_rsqrt, simp) (rule real_less_lsqrt, simp_all add: power2_eq_square)

lemma round_trip_iso_400:
  "updateExposureParams 10 (apertureHeld\<lparr>aperture := 8, iso := 400\<rparr>)
     = Some (apertureHeld\<lparr>aperture := 8, iso := 400, currentEV := 10, shutterSpeed := 1/60\<rparr>)
   \<and> updateExposureParams 10 (toggleMeteringMode
       (apertureHeld\<lparr>aperture := 8, iso := 400, currentEV := 10, shutterSpeed := 1/60\<rparr>))
     = Some (apertureHeld\<lparr>aperture := 2, iso := 400, currentEV := 10, shutterSpeed := 1/60,
          typeFlag := Shutter\<rparr>)"
proof -
  have v: "(1/60) * (100/400) * 2 powr (10 - 0) = (64/15 :: real)" by simp
  have snap: "getStandardApertureValue (sqrt (64/15)) = Some 2"
    using sqrt_64_15 by (simp add: getStandardApertureValue_def standardApertureValues_def abs_if)
  show ?thesis
    using sqrt_64_15 snap
    by (simp add: apertureHeld_def updateExposureParams_def toggleMeteringMode_def
        powr_neg_numeral getStandardShutterSpeed_ratio)
qed

subsection \<open>Which entry the snaps return\<close>

text \<open>
  The shutter snap and the aperture snap of the view return the first entry at the least
  distance between the logarithms; the aperture snap of the composable returns the first
  entry at the least difference of the values.
\<close>

lemma getStandardShutterSpeed_first_closest:
  assumes "standardShutterSpeeds = ys @ r # zs"
    and "\<forall>y\<in>set ys. \<bar>log 2 r - log 2 v\<bar> < \<bar>log 2 y - log 2 v\<bar>"
    and "\<forall>z\<in>set zs. \<bar>log 2 r - log 2 v\<bar> \<le> \<bar>log 2 z - log 2 v\<bar>"
  shows "getStandardShutterSpeed v = Some r"
proof -
  obtain x xs where tab: "standardShutterSpeeds = x # xs"
    unfolding standardShutterSpeeds_def by blast
  have "x # xs = ys @ r # zs" using assms(1) tab by simp
  from foldl_closest_first [where d = "\<lambda>c. \<bar>log 2 c - log 2 v\<bar>", OF this assms(2,3)]
  show ?thesis by (simp only: getStandardShutterSpeed_def tab reduce.simps)
qed

lemma getStandardAperture_first_closest:
  assumes "apertureValues = ys @ r # zs"
    and "\<forall>y\<in>set ys. \<bar>log 2 r - log 2 v\<bar> < \<bar>log 2 y - log 2 v\<bar>"
    and "\<forall>z\<in>set zs. \<bar>log 2 r - log 2 v\<bar> \<le> \<bar>log 2 z - log 2 v\<bar>"
  shows "getStandardAperture v = Some r"
proof -
  obtain x xs where tab: "apertureValues = x # xs"
    unfolding apertureValues_def by blast
  have "x # xs = ys @ r # zs" using assms(1) tab by simp
  from foldl_closest_first [where d = "\<lambda>c. \<bar>log 2 c - log 2 v\<bar>", OF this assms(2,3)]
  show ?thesis by (simp only: getStandardAperture_def tab reduce.simps)
qed

lemma getStandardApertureValue_first_closest:
  assumes "standardApertureValues = ys @ r # zs"
    and "\<forall>y\<in>set ys. \<bar>r - v\<bar> < \<bar>y - v\<bar>"
    and "\<forall>z\<in>set zs. \<bar>r - v\<bar> \<le> \<bar>z - v\<bar>"
  shows "getStandardApertureValue v = Some r"
proof -
  obtain x xs where tab: "standardApertureValues = x # xs"
    unfolding standardApertureValues_def by blast
  have "x # xs = ys @ r # zs" using assms(1) tab by simp
  from foldl_closest_first [where d = "\<lambda>c. \<bar>c - v\<bar>", OF this assms(2,3)]
  show ?thesis by (simp only: getStandardApertureValue_def tab reduce.simps)
qed

text \<open>The examples of the specification.\<close>

lemma snap_examples:
  "getStandardShutterSpeed (1/61) = Some (1/60)"
  "getStandardApertureValue 5.0 = Some 5.6"
  "getStandardAperture 5.0 = Some 5.6"
  by (simp_all add: getStandardShutterSpeed_ratio getStandardAperture_ratio
      getStandardApertureValue_def standardApertureValues_def)

text \<open>
  C3 asks every snap for the entry at the least distance between the logarithms. The
  aperture snap of the composable compares the differences of the values: for 4.75 it
  returns 4, although the entry 5.6 of its table is closer to 4.75 in the logarithm, and
  the aperture snap of the view returns 5.6.
\<close>

theorem getStandardApertureValue_not_log_nearest:
  "getStandardApertureValue 4.75 = Some 4.0
   \<and> 5.6 \<in> set standardApertureValues
   \<and> \<bar>log 2 5.6 - log 2 4.75\<bar> < \<bar>log 2 4.0 - log 2 4.75\<bar>
   \<and> getStandardAperture 4.75 = Some 5.6"
proof -
  have "\<bar>log 2 (56/10) - log 2 (475/100)\<bar> < \<bar>log 2 4 - log 2 (475/100 :: real)\<bar>"
    by (subst logdist_less_iff) simp_all
  then show ?thesis
    by (simp add: getStandardApertureValue_def standardApertureValues_def
        getStandardAperture_ratio)
qed

end
